theory Spec2Isabelle
  imports Main "HOL-Library.Word"
begin

unbundle bit_operations_syntax

section \<open>A decoder for Java object-serialization streams (parser.js)\<close>

text \<open>
  The development embeds \<^verbatim>\<open>src/parser.js\<close>: the byte cursor, the tag dispatcher, the
  handle table, the class-descriptor reader, the object, array and enum builders, the
  class-data reader, the registry and the top-level loop.

  JavaScript values are a datatype \<open>val\<close>. Values with identity that the parser
  mutates after they became reachable (class descriptors, decoded objects, arrays, enum
  constants) live in a heap, a list of objects addressed by position, and are denoted by
  \<open>VRef a\<close>: two references are identical exactly when the addresses are equal. Plain
  objects that the parser builds and hands on without mutating them again (the result of
  \<open>values\<close>, annotation lists, block-data slices) are kept by value.

  An exception is a value \<open>Inl e\<close> of the result type; a method of the parser is a
  function from the parser's state to an error or a result with the new state.
  Recursion through \<open>content\<close> is bounded by a fuel parameter, and so are the two
  loops that the buffer does not bound (\<open>annotations\<close> and the walk along \<open>super\<close>);
  \<open>OutOfFuel\<close> stands for a run that has not returned within the bound.

  Where JavaScript's dynamic semantics would take the parser outside this typed picture,
  the model returns \<open>Unmodelled\<close> instead of a value: a decoded object used as a class
  descriptor, an assignment to the key \<open>__proto__\<close> that changes a prototype, the
  string value of an array or a decoded object, and an annotation block stored on a value
  that is not a plain object. A theorem about a run that returns a value is then not about
  such a stream.
\<close>

subsection \<open>Values, objects and the parser's state\<close>

type_synonym byte = "8 word"
type_synonym addr = nat

text \<open>
  Strings: a JavaScript string decoded from the stream is kept as the list of the bytes
  of its UTF-8 encoding, one \<open>char\<close> per byte (for ASCII text this is the string
  itself). Two strings that the parser decodes are equal in JavaScript exactly when these
  lists are equal, because the decoder (\<open>to_utf8\<close> below) has replaced every
  ill-formed sequence of the input by U+FFFD.
  \<open>VChar\<close> is the one-code-unit string of \<open>String.fromCharCode\<close>; \<open>VFloat\<close>
  and \<open>VDouble\<close> keep the IEEE-754 bit pattern that \<open>readFloatBE\<close> and
  \<open>readDoubleBE\<close> decode; \<open>VLong low high\<close> is \<open>Long.fromBits(low, high)\<close>.
\<close>

datatype val =
    VUndefined
  | VNull
  | VEndBlock
  | VBool bool
  | VNum int
  | VChar nat
  | VFloat nat
  | VDouble nat
  | VLong nat nat
  | VStr string
  | VBuffer "byte list"
  | VObj "(string \<times> val) list"
  | VArr "val list"
  | VRef addr

record fieldDescriptor =
  fd_type :: string
  fd_name :: string
  fd_className :: "val option"

text \<open>
  A class descriptor under construction: a property that the code has not yet assigned
  is \<open>None\<close> (reading it in JavaScript gives \<open>undefined\<close>).
\<close>

record classDescriptor =
  cd_name :: string
  cd_serialVersionUID :: string
  cd_flags :: "nat option"
  cd_isEnum :: "bool option"
  cd_fields :: "fieldDescriptor list option"
  cd_annotations :: "val option"
  cd_super :: "val option"

text \<open>
  \<open>OObject cls ext props\<close>: the non-enumerable, read-only properties \<open>class\<close> and
  \<open>extends\<close>, and the enumerable own properties in insertion order.
  \<open>OArray cls elems\<close>: an array with its \<open>class\<close> (its \<open>extends\<close> stays empty).
  \<open>OEnum str cls\<close>: the \<open>String\<close> wrapper of an enum constant.
\<close>

datatype obj =
    OClassDesc classDescriptor
  | OObject val "(string \<times> val) list" "(string \<times> val) list"
  | OArray val "val list"
  | OEnum string val

datatype error =
    PrematureEnd nat
  | StringTooLong
  | NoMagic
  | BadVersion
  | UnknownType nat
  | NotAllowed "string option"
  | NoHandler "string option"
  | ExternalV1
  | UnknownFlags nat
  | UnknownFieldType string
  | TypeError
  | RangeError
  | AssertionError
  | Unmodelled
  | OutOfFuel

record pstate =
  buf :: "byte list"
  pos :: nat
  nextHandle :: int
  handles :: "int \<rightharpoonup> val"
  contents :: "val list"
  heap :: "obj list"

type_synonym 'a parser = "pstate \<Rightarrow> error + ('a \<times> pstate)"

definition return :: "'a \<Rightarrow> 'a parser" where
  "return x s = Inr (x, s)"

definition throw :: "error \<Rightarrow> 'a parser" where
  "throw e s = Inl e"

definition bind :: "'a parser \<Rightarrow> ('a \<Rightarrow> 'b parser) \<Rightarrow> 'b parser" where
  "bind m f s = (case m s of Inl e \<Rightarrow> Inl e | Inr (x, s') \<Rightarrow> f x s')"

subsection \<open>The byte cursor\<close>

definition step :: "nat \<Rightarrow> nat parser" where
  "step len s =
     (let p = pos s; s' = s\<lparr>pos := pos s + len\<rparr>
      in if pos s' > length (buf s') then Inl (PrematureEnd (pos s')) else Inr (p, s'))"

text \<open>Big-endian reads of the buffer, unsigned and two's complement.\<close>

definition be_nat :: "byte list \<Rightarrow> nat" where
  "be_nat bs = foldl (\<lambda>acc b. acc * 256 + unat b) 0 bs"

definition slice :: "byte list \<Rightarrow> nat \<Rightarrow> nat \<Rightarrow> byte list" where
  "slice b start end = take (end - start) (drop start b)"

definition to_signed :: "nat \<Rightarrow> nat \<Rightarrow> int" where
  "to_signed bits n = (if n \<ge> 2 ^ (bits - 1) then int n - 2 ^ bits else int n)"

definition readUIntBE :: "nat \<Rightarrow> nat parser" where
  "readUIntBE w = bind (step w) (\<lambda>p s. Inr (be_nat (slice (buf s) p (p + w)), s))"

definition readUInt8 :: "nat parser" where
  "readUInt8 = readUIntBE 1"

definition readInt8 :: "int parser" where
  "readInt8 = bind (readUIntBE 1) (\<lambda>n. return (to_signed 8 n))"

definition readUInt16 :: "nat parser" where
  "readUInt16 = readUIntBE 2"

definition readInt16 :: "int parser" where
  "readInt16 = bind (readUIntBE 2) (\<lambda>n. return (to_signed 16 n))"

definition readUInt32 :: "nat parser" where
  "readUInt32 = readUIntBE 4"

definition readInt32 :: "int parser" where
  "readInt32 = bind (readUIntBE 4) (\<lambda>n. return (to_signed 32 n))"

datatype encoding = Hex | Utf8

definition hex_digit :: "nat \<Rightarrow> char" where
  "hex_digit n = ''0123456789abcdef'' ! (n mod 16)"

definition to_hex :: "byte list \<Rightarrow> string" where
  "to_hex bs = concat (map (\<lambda>b. [hex_digit (unat b div 16), hex_digit (unat b)]) bs)"

text \<open>
  \<open>buf.toString("utf8")\<close> decodes the bytes as UTF-8 and puts U+FFFD in the place of
  every ill-formed sequence: \<open>utf8_decode\<close> is that decoder, with its state (the
  continuation bytes still needed, the code point so far, the bounds of the next byte),
  giving the code points of the JavaScript string. A byte that cannot continue a sequence
  ends it with U+FFFD and is then read again as the start of a sequence. \<open>utf8_encode\<close>
  writes a code point (or a single UTF-16 code unit) in UTF-8, the form in which strings
  are kept here.
\<close>

definition utf8_encode :: "nat \<Rightarrow> string" where
  "utf8_encode cp =
     (if cp < 0x80 then [char_of cp]
      else if cp < 0x800 then [char_of (0xC0 + cp div 0x40), char_of (0x80 + cp mod 0x40)]
      else if cp < 0x10000 then
        [char_of (0xE0 + cp div 0x1000), char_of (0x80 + cp div 0x40 mod 0x40),
         char_of (0x80 + cp mod 0x40)]
      else
        [char_of (0xF0 + cp div 0x40000), char_of (0x80 + cp div 0x1000 mod 0x40),
         char_of (0x80 + cp div 0x40 mod 0x40), char_of (0x80 + cp mod 0x40)])"

fun utf8_decode :: "nat \<Rightarrow> nat \<Rightarrow> nat \<Rightarrow> nat \<Rightarrow> nat list \<Rightarrow> nat list" where
  "utf8_decode needed cp lower upper [] = (if needed = 0 then [] else [0xFFFD])"
| "utf8_decode needed cp lower upper (b # bs) =
     (if needed = 0 then
        (if b \<le> 0x7F then b # utf8_decode 0 0 0x80 0xBF bs
         else if 0xC2 \<le> b \<and> b \<le> 0xDF then utf8_decode 1 (b mod 0x20) 0x80 0xBF bs
         else if 0xE0 \<le> b \<and> b \<le> 0xEF then
           utf8_decode 2 (b mod 0x10) (if b = 0xE0 then 0xA0 else 0x80)
             (if b = 0xED then 0x9F else 0xBF) bs
         else if 0xF0 \<le> b \<and> b \<le> 0xF4 then
           utf8_decode 3 (b mod 0x08) (if b = 0xF0 then 0x90 else 0x80)
             (if b = 0xF4 then 0x8F else 0xBF) bs
         else 0xFFFD # utf8_decode 0 0 0x80 0xBF bs)
      else if b < lower \<or> upper < b then 0xFFFD # utf8_decode 0 0 0x80 0xBF (b # bs)
      else if needed = 1 then (cp * 0x40 + b mod 0x40) # utf8_decode 0 0 0x80 0xBF bs
      else utf8_decode (needed - 1) (cp * 0x40 + b mod 0x40) 0x80 0xBF bs)"

definition to_utf8 :: "byte list \<Rightarrow> string" where
  "to_utf8 bs = concat (map utf8_encode (utf8_decode 0 0 0x80 0xBF (map unat bs)))"

text \<open>
  The UTF-16 code units of a string, which \<open>charAt\<close> indexes, and
  \<open>String.fromCharCode\<close> of one code unit.
\<close>

definition utf16_units :: "nat \<Rightarrow> nat list" where
  "utf16_units cp =
     (if cp < 0x10000 then [cp]
      else [0xD800 + (cp - 0x10000) div 0x400, 0xDC00 + (cp - 0x10000) mod 0x400])"

definition code_units :: "string \<Rightarrow> nat list" where
  "code_units str = concat (map utf16_units (utf8_decode 0 0 0x80 0xBF (map of_char str)))"

definition fromCharCode :: "nat \<Rightarrow> string" where
  "fromCharCode c = utf8_encode c"

definition charAt :: "string \<Rightarrow> nat \<Rightarrow> string" where
  "charAt str i = (let us = code_units str in if i < length us then fromCharCode (us ! i) else [])"

definition buf_toString :: "encoding \<Rightarrow> byte list \<Rightarrow> string" where
  "buf_toString enc bs = (case enc of Hex \<Rightarrow> to_hex bs | Utf8 \<Rightarrow> to_utf8 bs)"

definition chunk :: "nat \<Rightarrow> encoding \<Rightarrow> string parser" where
  "chunk len enc = bind (step len) (\<lambda>p s. Inr (buf_toString enc (slice (buf s) p (pos s)), s))"

definition readHex :: "nat \<Rightarrow> string parser" where
  "readHex len = chunk len Hex"

definition utf :: "string parser" where
  "utf = bind readUInt16 (\<lambda>len. chunk len Utf8)"

definition utfLong :: "string parser" where
  "utfLong = bind readUInt32 (\<lambda>high.
     if high \<noteq> 0 then throw StringTooLong
     else bind readUInt32 (\<lambda>len. chunk len Utf8))"

definition magic :: "unit parser" where
  "magic = bind readUInt16 (\<lambda>m. if m \<noteq> 0xaced then throw NoMagic else return ())"

definition version :: "unit parser" where
  "version = bind readUInt16 (\<lambda>v. if v \<noteq> 5 then throw BadVersion else return ())"

subsection \<open>Heap, handle table and property assignment\<close>

definition lift :: "error + 'a \<Rightarrow> 'a parser" where
  "lift r s = (case r of Inl e \<Rightarrow> Inl e | Inr x \<Rightarrow> Inr (x, s))"

definition modify :: "(pstate \<Rightarrow> pstate) \<Rightarrow> unit parser" where
  "modify f s = Inr ((), f s)"

definition alloc :: "obj \<Rightarrow> addr parser" where
  "alloc ob s = Inr (length (heap s), s\<lparr>heap := heap s @ [ob]\<rparr>)"

definition update_obj :: "addr \<Rightarrow> (obj \<Rightarrow> obj) \<Rightarrow> unit parser" where
  "update_obj a f = modify (\<lambda>s. s\<lparr>heap := (heap s)[a := f (heap s ! a)]\<rparr>)"

definition newHandle :: "val \<Rightarrow> val parser" where
  "newHandle ob s =
     Inr (ob, s\<lparr>handles := (handles s)(nextHandle s \<mapsto> ob), nextHandle := nextHandle s + 1\<rparr>)"

text \<open>
  \<open>newDeferredHandle\<close> returns a closure over the slot's index; here it returns the
  index, and \<open>deferredHandle idx\<close> is the closure applied to the object.
\<close>

definition newDeferredHandle :: "int parser" where
  "newDeferredHandle s =
     (let idx = nextHandle s
      in Inr (idx, s\<lparr>nextHandle := nextHandle s + 1, handles := (handles s)(idx \<mapsto> VNull)\<rparr>))"

definition deferredHandle :: "int \<Rightarrow> val \<Rightarrow> unit parser" where
  "deferredHandle idx ob = modify (\<lambda>s. s\<lparr>handles := (handles s)(idx \<mapsto> ob)\<rparr>)"

text \<open>
  The own enumerable properties of a plain object, as a list in the order in which
  JavaScript enumerates them: first the keys that are array indices (canonical decimal
  numerals below \<open>2 ^ 32 - 1\<close>) in ascending numeric order, then the other keys in the
  order of their creation. \<open>set_prop k v ps\<close> is \<open>ps\<close> after \<open>o[k] = v\<close> for a key
  that is an ordinary data property: a key that is there keeps its place, a new one is
  put where the enumeration has it.
\<close>

definition array_index :: "string \<Rightarrow> nat option" where
  "array_index k =
     (if k \<noteq> [] \<and> list_all (\<lambda>c. c \<in> set ''0123456789'') k \<and> (k = ''0'' \<or> hd k \<noteq> CHR ''0'')
      then (let i = foldl (\<lambda>acc c. acc * 10 + (of_char c - 48)) 0 k
            in if i < 2 ^ 32 - 1 then Some i else None)
      else None)"

definition key_before :: "string \<Rightarrow> string \<Rightarrow> bool" where
  "key_before k k' =
     (case array_index k of
        None \<Rightarrow> False
      | Some i \<Rightarrow> (case array_index k' of None \<Rightarrow> True | Some j \<Rightarrow> i < j))"

fun set_prop :: "string \<Rightarrow> val \<Rightarrow> (string \<times> val) list \<Rightarrow> (string \<times> val) list" where
  "set_prop k v [] = [(k, v)]"
| "set_prop k v ((k', v') # ps) =
     (if k = k' then (k, v) # ps
      else if key_before k k' then (k, v) # (k', v') # ps
      else (k', v') # set_prop k v ps)"

text \<open>
  Assignment \<open>o[k] = v\<close> to an object that inherits from \<open>Object.prototype\<close>. The
  key \<open>__proto__\<close> is the accessor of \<open>Object.prototype\<close>: the assignment creates no
  property; it does nothing when \<open>v\<close> is a primitive value, and sets the prototype of
  \<open>o\<close> when \<open>v\<close> is an object or \<open>null\<close>, where the model stops.
\<close>

fun primitive :: "val \<Rightarrow> bool" where
  "primitive VUndefined = True"
| "primitive (VBool b) = True"
| "primitive (VNum i) = True"
| "primitive (VChar c) = True"
| "primitive (VFloat f) = True"
| "primitive (VDouble d) = True"
| "primitive (VStr str) = True"
| "primitive v = False"

definition put :: "string \<Rightarrow> val \<Rightarrow> (string \<times> val) list \<Rightarrow> error + (string \<times> val) list" where
  "put k v ps =
     (if k = ''__proto__'' then (if primitive v then Inr ps else Inl Unmodelled)
      else Inr (set_prop k v ps))"

text \<open>
  The value in a class-descriptor position can be any value of the handle table. Reading
  \<open>name\<close>, \<open>flags\<close> or \<open>fields\<close> from \<open>null\<close> or \<open>undefined\<close> is a
  \<open>TypeError\<close>; from a string, an array or an enum constant the property is
  \<open>undefined\<close> and its first use is a \<open>TypeError\<close>. A decoded object in that
  position would be read through its decoded fields; the model stops there.
\<close>

definition as_classDesc :: "val \<Rightarrow> classDescriptor parser" where
  "as_classDesc cls s =
     (case cls of
        VRef a \<Rightarrow>
          (if a < length (heap s) then
             (case heap s ! a of
                OClassDesc cd \<Rightarrow> Inr (cd, s)
              | OObject c e ps \<Rightarrow> Inl Unmodelled
              | _ \<Rightarrow> Inl TypeError)
           else Inl Unmodelled)
      | VObj ps \<Rightarrow> Inl Unmodelled
      | _ \<Rightarrow> Inl TypeError)"

fun truthy :: "val \<Rightarrow> bool" where
  "truthy VUndefined = False"
| "truthy VNull = False"
| "truthy (VBool b) = b"
| "truthy (VNum i) = (i \<noteq> 0)"
| "truthy (VStr s) = (s \<noteq> [])"
| "truthy (VFloat n) = (n mod 2 ^ 31 \<noteq> 0 \<and> \<not> n mod 2 ^ 31 > 0x7f800000)"
| "truthy (VDouble n) = (n mod 2 ^ 63 \<noteq> 0 \<and> \<not> n mod 2 ^ 63 > 0x7ff0000000000000)"
| "truthy v = True"

text \<open>\<open>new String(constant)\<close>: the string value of what \<open>content\<close> can return.\<close>

definition js_String :: "val \<Rightarrow> string parser" where
  "js_String v s =
     (case v of
        VUndefined \<Rightarrow> Inr (''undefined'', s)
      | VNull \<Rightarrow> Inr (''null'', s)
      | VEndBlock \<Rightarrow> Inr (''[object Object]'', s)
      | VStr str \<Rightarrow> Inr (str, s)
      | VBuffer bs \<Rightarrow> Inr (to_utf8 bs, s)
      | VRef a \<Rightarrow>
          (if a < length (heap s) then
             (case heap s ! a of
                OClassDesc cd \<Rightarrow> Inr (''[object Object]'', s)
              | OEnum str c \<Rightarrow> Inr (str, s)
              | _ \<Rightarrow> Inl Unmodelled)
           else Inl Unmodelled)
      | _ \<Rightarrow> Inl Unmodelled)"

subsection \<open>The registry\<close>

record registry =
  classDataParsers :: "string \<rightharpoonup> (val \<Rightarrow> val parser)"
  classPostProcessors :: "string \<rightharpoonup> (val \<Rightarrow> val \<Rightarrow> val \<Rightarrow> val parser)"

definition empty_registry :: registry where
  "empty_registry = \<lparr>classDataParsers = Map.empty, classPostProcessors = Map.empty\<rparr>"

definition registerClassDataParser ::
  "string \<Rightarrow> string \<Rightarrow> (val \<Rightarrow> val parser) \<Rightarrow> registry \<Rightarrow> error + registry" where
  "registerClassDataParser className serialVersionUID p reg =
     (if length serialVersionUID \<noteq> 16 then Inl AssertionError
      else Inr (reg\<lparr>classDataParsers :=
        (classDataParsers reg)(className @ ''@'' @ serialVersionUID \<mapsto> p)\<rparr>))"

definition registerPostProcessor ::
  "string \<Rightarrow> string \<Rightarrow> (val \<Rightarrow> val \<Rightarrow> val \<Rightarrow> val parser) \<Rightarrow> registry \<Rightarrow> error + registry" where
  "registerPostProcessor className serialVersionUID p reg =
     (if length serialVersionUID \<noteq> 16 then Inl AssertionError
      else Inr (reg\<lparr>classPostProcessors :=
        (classPostProcessors reg)(className @ ''@'' @ serialVersionUID \<mapsto> p)\<rparr>))"

subsection \<open>Primitive handlers\<close>

text \<open>
  The recursive method \<open>this.content\<close> is a parameter \<open>content\<close> of every
  function that calls it; the knot is tied below, by recursion on the fuel.
\<close>

type_synonym contentfn = "string list option \<Rightarrow> val parser"

definition primHandlers :: "(string \<times> (contentfn \<Rightarrow> val parser)) list" where
  "primHandlers =
    [(''B'', \<lambda>content. bind readInt8 (\<lambda>i. return (VNum i))),
     (''C'', \<lambda>content. bind readUInt16 (\<lambda>c. return (VChar c))),
     (''D'', \<lambda>content. bind (readUIntBE 8) (\<lambda>d. return (VDouble d))),
     (''F'', \<lambda>content. bind (readUIntBE 4) (\<lambda>f. return (VFloat f))),
     (''I'', \<lambda>content. bind readInt32 (\<lambda>i. return (VNum i))),
     (''J'', \<lambda>content. bind readUInt32 (\<lambda>high. bind readUInt32 (\<lambda>low. return (VLong low high)))),
     (''S'', \<lambda>content. bind readInt16 (\<lambda>i. return (VNum i))),
     (''Z'', \<lambda>content. bind readInt8 (\<lambda>i. return (VBool (i \<noteq> 0)))),
     (''L'', \<lambda>content. content None),
     (''['', \<lambda>content. content None)]"

definition primHandler :: "string \<Rightarrow> error + (contentfn \<Rightarrow> val parser)" where
  "primHandler ty =
     (case map_of primHandlers ty of None \<Rightarrow> Inl (UnknownFieldType ty) | Some handler \<Rightarrow> Inr handler)"

subsection \<open>Annotations, class descriptors and class data\<close>

text \<open>
  \<open>annotations\<close> loops until \<open>content\<close> returns the end-block marker; the loop
  counter \<open>k\<close> bounds the number of iterations.
\<close>

primrec annotations_loop :: "contentfn \<Rightarrow> nat \<Rightarrow> string list option \<Rightarrow> val list \<Rightarrow> val parser" where
  "annotations_loop content 0 allowed acc = throw OutOfFuel"
| "annotations_loop content (Suc k) allowed acc =
     bind (content allowed) (\<lambda>annotation.
       if annotation = VEndBlock then return (VArr acc)
       else annotations_loop content k allowed (acc @ [annotation]))"

definition annotations :: "contentfn \<Rightarrow> nat \<Rightarrow> string list option \<Rightarrow> val parser" where
  "annotations content k allowed = annotations_loop content k allowed []"

definition classDesc :: "contentfn \<Rightarrow> val parser" where
  "classDesc content = content (Some [''ClassDesc'', ''ProxyClassDesc'', ''Null'', ''Reference''])"

text \<open>\<open>res.type\<close> is a string of one character, so \<open>"[L".indexOf(res.type) !== -1\<close>
  holds exactly for \<open>"["\<close> and \<open>"L"\<close>.\<close>

definition fieldDesc :: "contentfn \<Rightarrow> fieldDescriptor parser" where
  "fieldDesc content =
     bind readUInt8 (\<lambda>c.
     bind utf (\<lambda>nm.
       let ty = fromCharCode c in
       if ty = ''['' \<or> ty = ''L'' then
         bind (content None) (\<lambda>cn. return \<lparr>fd_type = ty, fd_name = nm, fd_className = Some cn\<rparr>)
       else return \<lparr>fd_type = ty, fd_name = nm, fd_className = None\<rparr>))"

primrec values_loop :: "contentfn \<Rightarrow> fieldDescriptor list \<Rightarrow> (string \<times> val) list \<Rightarrow> val parser" where
  "values_loop content [] vals = return (VObj vals)"
| "values_loop content (field # rest) vals =
     bind (lift (primHandler (fd_type field))) (\<lambda>handler.
     bind (handler content) (\<lambda>v.
     bind (lift (put (fd_name field) v vals)) (\<lambda>vals'.
       values_loop content rest vals')))"

definition values' :: "contentfn \<Rightarrow> val \<Rightarrow> val parser" where
  "values' content cls =
     bind (as_classDesc cls) (\<lambda>cd.
       case cd_fields cd of
         None \<Rightarrow> throw TypeError
       | Some fds \<Rightarrow> values_loop content fds [])"

text \<open>
  \<open>res["@"] = data\<close> on the value a class-data parser returned: a plain object gets
  the property; \<open>null\<close>, \<open>undefined\<close> and (in strict mode) a primitive raise a
  \<open>TypeError\<close>.
\<close>

definition set_at :: "val \<Rightarrow> val \<Rightarrow> val parser" where
  "set_at res data =
     (case res of
        VObj ps \<Rightarrow> return (VObj (set_prop ''@'' data ps))
      | VUndefined \<Rightarrow> throw TypeError
      | VNull \<Rightarrow> throw TypeError
      | VBool b \<Rightarrow> throw TypeError
      | VNum i \<Rightarrow> throw TypeError
      | VChar c \<Rightarrow> throw TypeError
      | VFloat f \<Rightarrow> throw TypeError
      | VDouble d \<Rightarrow> throw TypeError
      | VStr str \<Rightarrow> throw TypeError
      | _ \<Rightarrow> throw Unmodelled)"

definition classdata :: "registry \<Rightarrow> contentfn \<Rightarrow> nat \<Rightarrow> val \<Rightarrow> val parser" where
  "classdata reg content k cls =
     bind (as_classDesc cls) (\<lambda>cd.
       let key = cd_name cd @ ''@'' @ cd_serialVersionUID cd;
           classDataParser =
             (case classDataParsers reg key of Some p \<Rightarrow> p | None \<Rightarrow> values' content);
           postProcessor = classPostProcessors reg key
       in case cd_flags cd of
            None \<Rightarrow> throw TypeError
          | Some flags \<Rightarrow>
              if flags AND 0x0f = 0x02 then values' content cls
              else if flags AND 0x0f = 0x03 then
                bind (classDataParser cls) (\<lambda>res.
                bind (annotations content k None) (\<lambda>data.
                bind (set_at res data) (\<lambda>res.
                  case postProcessor of
                    Some pp \<Rightarrow> pp cls res data
                  | None \<Rightarrow> return res)))
              else if flags AND 0x0f = 0x04 then throw ExternalV1
              else if flags AND 0x0f = 0x0c then
                bind (annotations content k None) (\<lambda>data. return (VObj [(''@'', data)]))
              else throw (UnknownFlags flags))"

text \<open>
  \<open>obj[name] = v\<close> on a decoded object: \<open>class\<close> and \<open>extends\<close> were defined
  without \<open>writable\<close>, so assigning to them in strict mode is a \<open>TypeError\<close>.
\<close>

definition assign_own :: "addr \<Rightarrow> string \<Rightarrow> val \<Rightarrow> unit parser" where
  "assign_own a k v s =
     (case heap s ! a of
        OObject c e ps \<Rightarrow>
          (if k = ''class'' \<or> k = ''extends'' then Inl TypeError
           else case put k v ps of
                  Inl err \<Rightarrow> Inl err
                | Inr ps' \<Rightarrow> Inr ((), s\<lparr>heap := (heap s)[a := OObject c e ps']\<rparr>))
      | _ \<Rightarrow> Inl Unmodelled)"

definition assign_extends :: "addr \<Rightarrow> string \<Rightarrow> val \<Rightarrow> unit parser" where
  "assign_extends a k v s =
     (case heap s ! a of
        OObject c e ps \<Rightarrow>
          (case put k v e of
             Inl err \<Rightarrow> Inl err
           | Inr e' \<Rightarrow> Inr ((), s\<lparr>heap := (heap s)[a := OObject c e' ps]\<rparr>))
      | _ \<Rightarrow> Inl Unmodelled)"

text \<open>\<open>for (const name in fields) obj[name] = fields[name]\<close>: a plain object gives its
  own keys in order; \<open>null\<close>, \<open>undefined\<close>, numbers and booleans give none.\<close>

primrec copy_loop :: "addr \<Rightarrow> (string \<times> val) list \<Rightarrow> unit parser" where
  "copy_loop a [] = return ()"
| "copy_loop a (kv # rest) = bind (assign_own a (fst kv) (snd kv)) (\<lambda>_. copy_loop a rest)"

definition copy_fields :: "addr \<Rightarrow> val \<Rightarrow> unit parser" where
  "copy_fields a flds =
     (case flds of
        VObj ps \<Rightarrow> copy_loop a ps
      | VUndefined \<Rightarrow> return ()
      | VNull \<Rightarrow> return ()
      | VBool b \<Rightarrow> return ()
      | VNum i \<Rightarrow> return ()
      | VFloat f \<Rightarrow> return ()
      | VDouble d \<Rightarrow> return ()
      | _ \<Rightarrow> throw Unmodelled)"

text \<open>\<open>recursiveClassData\<close> follows \<open>cls.super\<close>, which a stream can make cyclic;
  the counter \<open>k\<close> bounds the depth.\<close>

primrec recursiveClassData :: "registry \<Rightarrow> contentfn \<Rightarrow> nat \<Rightarrow> nat \<Rightarrow> val \<Rightarrow> addr \<Rightarrow> unit parser" where
  "recursiveClassData reg content n 0 cls ob = throw OutOfFuel"
| "recursiveClassData reg content n (Suc k) cls ob =
     bind (as_classDesc cls) (\<lambda>cd.
     bind (case cd_super cd of
             None \<Rightarrow> return ()
           | Some super \<Rightarrow>
               if truthy super then recursiveClassData reg content n k super ob else return ()) (\<lambda>_.
     bind (classdata reg content n cls) (\<lambda>flds.
     bind (assign_extends ob (cd_name cd) flds) (\<lambda>_.
       copy_fields ob flds))))"

subsection \<open>Type handlers and the tag dispatcher\<close>

definition names :: "string list" where
  "names =
    [''Null'', ''Reference'', ''ClassDesc'', ''Object'', ''String'', ''Array'', ''Class'',
     ''BlockData'', ''EndBlockData'', ''Reset'', ''BlockDataLong'', ''Exception'',
     ''LongString'', ''ProxyClassDesc'', ''Enum'']"

definition typeHandler_Null :: "val parser" where
  "typeHandler_Null = return VNull"

text \<open>\<open>this.handles[i]\<close> of an index that was never assigned is \<open>undefined\<close>.\<close>

definition typeHandler_Reference :: "val parser" where
  "typeHandler_Reference =
     bind readInt32 (\<lambda>h s. Inr (case handles s h of None \<Rightarrow> VUndefined | Some v \<Rightarrow> v, s))"

primrec fields_loop :: "contentfn \<Rightarrow> addr \<Rightarrow> nat \<Rightarrow> unit parser" where
  "fields_loop content a 0 = return ()"
| "fields_loop content a (Suc count) =
     bind (fieldDesc content) (\<lambda>fd.
     bind (update_obj a (\<lambda>ob. case ob of
             OClassDesc cd \<Rightarrow> OClassDesc (cd\<lparr>cd_fields := Some (the (cd_fields cd) @ [fd])\<rparr>)
           | _ \<Rightarrow> ob)) (\<lambda>_.
       fields_loop content a count))"

definition set_classDesc :: "addr \<Rightarrow> (classDescriptor \<Rightarrow> classDescriptor) \<Rightarrow> unit parser" where
  "set_classDesc a f = update_obj a (\<lambda>ob. case ob of OClassDesc cd \<Rightarrow> OClassDesc (f cd) | _ \<Rightarrow> ob)"

text \<open>The descriptor is allocated with its \<open>name\<close> and \<open>serialVersionUID\<close>, the two
  properties it has when \<open>newHandle\<close> makes it reachable.\<close>

definition typeHandler_ClassDesc :: "contentfn \<Rightarrow> nat \<Rightarrow> val parser" where
  "typeHandler_ClassDesc content k =
     bind utf (\<lambda>nm.
     bind (readHex 8) (\<lambda>uid.
     bind (alloc (OClassDesc \<lparr>cd_name = nm, cd_serialVersionUID = uid, cd_flags = None,
             cd_isEnum = None, cd_fields = None, cd_annotations = None, cd_super = None\<rparr>)) (\<lambda>a.
     bind (newHandle (VRef a)) (\<lambda>res.
     bind readUInt8 (\<lambda>flags.
     bind (set_classDesc a (\<lambda>cd. cd\<lparr>cd_flags := Some flags,
             cd_isEnum := Some (flags AND 0x10 \<noteq> 0)\<rparr>)) (\<lambda>_.
     bind readUInt16 (\<lambda>count.
     bind (set_classDesc a (\<lambda>cd. cd\<lparr>cd_fields := Some []\<rparr>)) (\<lambda>_.
     bind (fields_loop content a count) (\<lambda>_.
     bind (annotations content k None) (\<lambda>anns.
     bind (set_classDesc a (\<lambda>cd. cd\<lparr>cd_annotations := Some anns\<rparr>)) (\<lambda>_.
     bind (classDesc content) (\<lambda>super.
     bind (set_classDesc a (\<lambda>cd. cd\<lparr>cd_super := Some super\<rparr>)) (\<lambda>_.
       return res)))))))))))))"

definition typeHandler_Object :: "registry \<Rightarrow> contentfn \<Rightarrow> nat \<Rightarrow> val parser" where
  "typeHandler_Object reg content k =
     bind (classDesc content) (\<lambda>cls.
     bind (alloc (OObject cls [] [])) (\<lambda>a.
     bind (newHandle (VRef a)) (\<lambda>res.
     bind (recursiveClassData reg content k k cls a) (\<lambda>_.
       return res))))"

definition typeHandler_String :: "val parser" where
  "typeHandler_String = bind utf (\<lambda>str. newHandle (VStr str))"

primrec elements_loop :: "val parser \<Rightarrow> addr \<Rightarrow> nat \<Rightarrow> nat \<Rightarrow> unit parser" where
  "elements_loop handler a i 0 = return ()"
| "elements_loop handler a i (Suc remaining) =
     bind handler (\<lambda>v.
     bind (update_obj a (\<lambda>ob. case ob of OArray c es \<Rightarrow> OArray c (es[i := v]) | _ \<Rightarrow> ob)) (\<lambda>_.
       elements_loop handler a (Suc i) remaining))"

text \<open>\<open>res.length = len\<close> with a negative \<open>len\<close> is a \<open>RangeError\<close>; otherwise the
  array has \<open>len\<close> empty slots, which the loop fills.\<close>

definition typeHandler_Array :: "contentfn \<Rightarrow> val parser" where
  "typeHandler_Array content =
     bind (classDesc content) (\<lambda>cls.
     bind (alloc (OArray cls [])) (\<lambda>a.
     bind (newHandle (VRef a)) (\<lambda>res.
     bind readInt32 (\<lambda>len.
     bind (as_classDesc cls) (\<lambda>cd.
     bind (lift (primHandler (charAt (cd_name cd) 1))) (\<lambda>handler.
       if len < 0 then throw RangeError
       else
         bind (update_obj a (\<lambda>ob. case ob of
                 OArray c es \<Rightarrow> OArray c (replicate (nat len) VUndefined)
               | _ \<Rightarrow> ob)) (\<lambda>_.
         bind (elements_loop (handler content) a 0 (nat len)) (\<lambda>_.
           return res))))))))"

definition typeHandler_Class :: "contentfn \<Rightarrow> val parser" where
  "typeHandler_Class content = bind (classDesc content) (\<lambda>cd. newHandle cd)"

text \<open>\<open>buf.slice\<close> clamps its bounds to the buffer; the cursor moves by \<open>len\<close>.\<close>

definition typeHandler_BlockData :: "val parser" where
  "typeHandler_BlockData =
     bind readUInt8 (\<lambda>len s.
       Inr (VBuffer (slice (buf s) (pos s) (pos s + len)), s\<lparr>pos := pos s + len\<rparr>))"

definition typeHandler_EndBlockData :: "val parser" where
  "typeHandler_EndBlockData = return VEndBlock"

definition typeHandler_BlockDataLong :: "val parser" where
  "typeHandler_BlockDataLong =
     bind readUInt32 (\<lambda>len s.
       Inr (VBuffer (slice (buf s) (pos s) (pos s + len)), s\<lparr>pos := pos s + len\<rparr>))"

definition typeHandler_LongString :: "val parser" where
  "typeHandler_LongString = bind utfLong (\<lambda>str. newHandle (VStr str))"

definition typeHandler_Enum :: "contentfn \<Rightarrow> val parser" where
  "typeHandler_Enum content =
     bind (classDesc content) (\<lambda>clazz.
     bind newDeferredHandle (\<lambda>idx.
     bind (content None) (\<lambda>constant.
     bind (js_String constant) (\<lambda>str.
     bind (alloc (OEnum str clazz)) (\<lambda>a.
     bind (deferredHandle idx (VRef a)) (\<lambda>_.
       return (VRef a)))))))"

definition typeHandlers :: "registry \<Rightarrow> contentfn \<Rightarrow> nat \<Rightarrow> (string \<times> val parser) list" where
  "typeHandlers reg content k =
    [(''Null'', typeHandler_Null),
     (''Reference'', typeHandler_Reference),
     (''ClassDesc'', typeHandler_ClassDesc content k),
     (''Object'', typeHandler_Object reg content k),
     (''String'', typeHandler_String),
     (''Array'', typeHandler_Array content),
     (''Class'', typeHandler_Class content),
     (''BlockData'', typeHandler_BlockData),
     (''EndBlockData'', typeHandler_EndBlockData),
     (''BlockDataLong'', typeHandler_BlockDataLong),
     (''LongString'', typeHandler_LongString),
     (''Enum'', typeHandler_Enum content)]"

text \<open>
  One call of \<open>content\<close>, with the recursive calls made through the parameter.
  \<open>names[tc]\<close> is \<open>undefined\<close> (\<open>None\<close>) at \<open>tc = names.length\<close>; \<open>undefined\<close>
  is in no allow-list and has no handler.
\<close>

definition content_body :: "registry \<Rightarrow> contentfn \<Rightarrow> nat \<Rightarrow> string list option \<Rightarrow> val parser" where
  "content_body reg content k allowed =
     bind readUInt8 (\<lambda>b.
       let tc = int b - 0x70 in
       if tc < 0 \<or> tc > int (length names) then throw (UnknownType b)
       else
         let name = (if nat tc < length names then Some (names ! nat tc) else None) in
         if (case allowed of
               None \<Rightarrow> False
             | Some al \<Rightarrow> (case name of None \<Rightarrow> True | Some nm \<Rightarrow> nm \<notin> set al))
         then throw (NotAllowed name)
         else
           case (case name of None \<Rightarrow> None | Some nm \<Rightarrow> map_of (typeHandlers reg content k) nm) of
             None \<Rightarrow> throw (NoHandler name)
           | Some handler \<Rightarrow> handler)"

subsection \<open>The top-level loop, the recursion on the fuel and the constructor\<close>

definition init :: "byte list \<Rightarrow> pstate" where
  "init b = \<lparr>buf = b, pos = 0, nextHandle = 0x7e0000, handles = Map.empty, contents = [], heap = []\<rparr>"

primrec contents_loop :: "contentfn \<Rightarrow> nat \<Rightarrow> unit parser" where
  "contents_loop content 0 = (\<lambda>s. if pos s < length (buf s) then Inl OutOfFuel else Inr ((), s))"
| "contents_loop content (Suc k) =
     (\<lambda>s. if pos s < length (buf s) then
            bind (content None) (\<lambda>v.
            bind (modify (\<lambda>s. s\<lparr>contents := contents s @ [v]\<rparr>)) (\<lambda>_.
              contents_loop content k)) s
          else Inr ((), s))"

primrec content :: "registry \<Rightarrow> nat \<Rightarrow> contentfn" where
  "content reg 0 = (\<lambda>allowed. throw OutOfFuel)"
| "content reg (Suc k) = content_body reg (content reg k) k"

definition Parser :: "registry \<Rightarrow> nat \<Rightarrow> byte list \<Rightarrow> error + pstate" where
  "Parser reg fuel b =
     (case bind magic (\<lambda>_. bind version (\<lambda>_. contents_loop (content reg fuel) fuel)) (init b) of
        Inl e \<Rightarrow> Inl e
      | Inr (u, s) \<Rightarrow> Inr s)"

subsection \<open>Notions of the specification\<close>

text \<open>What the specification calls ``exactly 16 hex digits''.\<close>

definition is_hex_digit :: "char \<Rightarrow> bool" where
  "is_hex_digit c = (c \<in> set ''0123456789abcdefABCDEF'')"

definition sixteen_hex_digits :: "string \<Rightarrow> bool" where
  "sixteen_hex_digits str = (length str = 16 \<and> list_all is_hex_digit str)"

text \<open>
  What an operation leaves alone. \<open>keeps h0 a0 s s'\<close>: the buffer is the same, the
  handle counter and the heap have not shrunk, and the handle slots below \<open>h0\<close> and the
  heap objects below \<open>a0\<close> are unchanged. \<open>frame s s'\<close> takes for the two bounds the
  handle counter and the heap size of \<open>s\<close>: nothing that existed in \<open>s\<close> has changed.
  An operation is \<open>preserving\<close> when every successful run of it is framed; a registry
  is well-behaved when its parsers and post-processors are preserving.
\<close>

definition keeps :: "int \<Rightarrow> nat \<Rightarrow> pstate \<Rightarrow> pstate \<Rightarrow> bool" where
  "keeps h0 a0 s s' \<longleftrightarrow>
     buf s' = buf s \<and> nextHandle s \<le> nextHandle s' \<and> length (heap s) \<le> length (heap s') \<and>
     (\<forall>h<h0. handles s' h = handles s h) \<and> (\<forall>a<a0. heap s' ! a = heap s ! a)"

definition frame :: "pstate \<Rightarrow> pstate \<Rightarrow> bool" where
  "frame s s' = keeps (nextHandle s) (length (heap s)) s s'"

definition pres :: "int \<Rightarrow> nat \<Rightarrow> 'a parser \<Rightarrow> bool" where
  "pres h0 a0 m \<longleftrightarrow>
     (\<forall>s x s'. h0 \<le> nextHandle s \<and> a0 \<le> length (heap s) \<and> m s = Inr (x, s') \<longrightarrow> keeps h0 a0 s s')"

definition preserving :: "'a parser \<Rightarrow> bool" where
  "preserving m \<longleftrightarrow> (\<forall>s x s'. m s = Inr (x, s') \<longrightarrow> frame s s')"

definition registry_ok :: "registry \<Rightarrow> bool" where
  "registry_ok reg \<longleftrightarrow>
     (\<forall>key p cls. classDataParsers reg key = Some p \<longrightarrow> preserving (p cls)) \<and>
     (\<forall>key pp cls res data. classPostProcessors reg key = Some pp \<longrightarrow> preserving (pp cls res data))"

text \<open>
  \<open>assigns_handle m\<close>: every successful run of \<open>m\<close> leaves its result in a handle slot
  that the run itself has allocated. \<open>yields v m\<close>: \<open>m\<close> can only return \<open>v\<close>.
\<close>

definition yields :: "'a \<Rightarrow> 'a parser \<Rightarrow> bool" where
  "yields v m \<longleftrightarrow> (\<forall>s x s'. m s = Inr (x, s') \<longrightarrow> x = v)"

definition assigns_handle :: "val parser \<Rightarrow> bool" where
  "assigns_handle m \<longleftrightarrow>
     (\<forall>s v s'. m s = Inr (v, s') \<longrightarrow>
        (\<exists>h. nextHandle s \<le> h \<and> h < nextHandle s' \<and> handles s' h = Some v))"







section \<open>Properties\<close>

subsection \<open>Evaluation and the byte cursor\<close>

lemmas cursor_defs = return_def throw_def bind_def step_def be_nat_def slice_def to_signed_def
  readUIntBE_def readUInt8_def readInt8_def readUInt16_def readInt16_def readUInt32_def
  readInt32_def chunk_def readHex_def utf_def utfLong_def magic_def version_def
  buf_toString_def to_utf8_def to_hex_def hex_digit_def

lemmas handler_defs = typeHandlers_def typeHandler_Null_def typeHandler_Reference_def
  typeHandler_BlockData_def typeHandler_BlockDataLong_def typeHandler_EndBlockData_def
  typeHandler_String_def typeHandler_LongString_def content_body_def names_def
  newHandle_def modify_def lift_def init_def Parser_def

lemma content_numeral:
  "content reg (numeral n) = content_body reg (content reg (pred_numeral n)) (pred_numeral n)"
  by (simp add: numeral_eq_Suc)

lemma contents_loop_numeral:
  "contents_loop c (numeral n) =
     (\<lambda>s. if pos s < length (buf s) then
            bind (c None) (\<lambda>v.
            bind (modify (\<lambda>s. s\<lparr>contents := contents s @ [v]\<rparr>)) (\<lambda>_.
              contents_loop c (pred_numeral n))) s
          else Inr ((), s))"
  by (simp add: numeral_eq_Suc)

lemma be_nat_snoc: "be_nat (bs @ [b]) = be_nat bs * 256 + unat b"
  by (simp add: be_nat_def)

lemma be_nat_append: "be_nat (xs @ ys) = be_nat xs * 256 ^ length ys + be_nat ys"
proof (induction ys rule: rev_induct)
  case Nil
  then show ?case by (simp add: be_nat_def)
next
  case (snoc y ys)
  have "be_nat (xs @ ys @ [y]) = be_nat ((xs @ ys) @ [y])" by simp
  also have "\<dots> = be_nat (xs @ ys) * 256 + unat y" by (rule be_nat_snoc)
  finally show ?case using snoc by (simp add: be_nat_snoc algebra_simps)
qed

lemma be_nat_bound: "be_nat bs < 256 ^ length bs"
proof (induction bs rule: rev_induct)
  case Nil
  then show ?case by (simp add: be_nat_def)
next
  case (snoc b bs)
  have "unat b < 256" using unsigned_less [of b, where ?'a = nat] by simp
  with snoc show ?case by (simp add: be_nat_snoc)
qed

lemma step_eq:
  "step len s = (if pos s + len > length (buf s) then Inl (PrematureEnd (pos s + len))
                 else Inr (pos s, s\<lparr>pos := pos s + len\<rparr>))"
  by (simp add: step_def Let_def)

lemma readUIntBE_eq:
  "readUIntBE w s = (if pos s + w > length (buf s) then Inl (PrematureEnd (pos s + w))
     else Inr (be_nat (slice (buf s) (pos s) (pos s + w)), s\<lparr>pos := pos s + w\<rparr>))"
  by (simp add: readUIntBE_def bind_def step_eq)

lemma chunk_eq:
  "chunk len enc s = (if pos s + len > length (buf s) then Inl (PrematureEnd (pos s + len))
     else Inr (buf_toString enc (slice (buf s) (pos s) (pos s + len)), s\<lparr>pos := pos s + len\<rparr>))"
  by (simp add: chunk_def bind_def step_eq)

lemma slice_split:
  "a \<le> b \<Longrightarrow> b \<le> c \<Longrightarrow> slice bs a c = slice bs a b @ slice bs b c"
proof -
  assume ab: "a \<le> b" and bc: "b \<le> c"
  have "take ((b - a) + (c - b)) (drop a bs) =
      take (b - a) (drop a bs) @ take (c - b) (drop (b - a) (drop a bs))"
    by (rule take_add)
  moreover have "(b - a) + (c - b) = c - a" using ab bc by simp
  moreover have "drop (b - a) (drop a bs) = drop b bs" using ab by simp
  ultimately show ?thesis by (simp add: slice_def)
qed

lemma slice_one: "p < length bs \<Longrightarrow> slice bs p (Suc p) = [bs ! p]"
  by (simp add: slice_def take_Suc_conv_app_nth [of 0, simplified] hd_drop_conv_nth take_Suc)

subsection \<open>Block data and the end of the buffer\<close>

text \<open>
  C1 (fails on the code). A \<open>BlockData\<close> item (tag \<open>0x77\<close>) that declares five bytes
  with one byte left in the buffer does not fail with ``premature end of input'': the
  parse succeeds and yields the one-byte slice. The handler moves the cursor without
  \<open>step\<close>, the only place where the end of the buffer is checked.
\<close>

theorem blockdata_past_end_is_truncated:
  "\<exists>s. Parser reg 2 [0xAC, 0xED, 0x00, 0x05, 0x77, 0x05, 0x01] = Inr s
       \<and> contents s = [VBuffer [0x01]]"
  by (simp add: cursor_defs handler_defs content_numeral contents_loop_numeral)

text \<open>
  C2 (fails on the code). After a successful parse the cursor can be beyond the end of
  the buffer: a \<open>BlockDataLong\<close> item (tag \<open>0x7A\<close>) that declares nine bytes at the end
  of a nine-byte buffer leaves the cursor at 18.
\<close>

theorem cursor_past_end_after_parse:
  "\<exists>s. Parser reg 2 [0xAC, 0xED, 0x00, 0x05, 0x7A, 0x00, 0x00, 0x00, 0x09] = Inr s
       \<and> pos s = 18 \<and> length (buf s) = 9"
  by (simp add: cursor_defs handler_defs content_numeral contents_loop_numeral)

text \<open>The loop's exit condition gives the other direction: the cursor is never before
  the end of the buffer when the constructor returns.\<close>

lemma contents_loop_pos:
  "contents_loop c k s = Inr (u, s') \<Longrightarrow> length (buf s') \<le> pos s'"
proof (induction k arbitrary: s)
  case 0
  then show ?case by (auto split: if_splits)
next
  case (Suc k)
  show ?case
  proof (cases "pos s < length (buf s)")
    case True
    with Suc.prems obtain v s1 where "c None s = Inr (v, s1)"
      and "contents_loop c k (s1\<lparr>contents := contents s1 @ [v]\<rparr>) = Inr (u, s')"
      by (auto simp: bind_def modify_def split: sum.splits)
    then show ?thesis using Suc.IH by blast
  next
    case False
    with Suc.prems show ?thesis by auto
  qed
qed

subsection \<open>The tag dispatcher\<close>

text \<open>
  C7 (fails on the code). The tag byte \<open>0x7F\<close> is outside the tag list (offset 15), but
  the range check \<open>tc > names.length\<close> lets it pass: the parse fails with ``Don't know
  how to handle undefined'', the error of a tag without handler, not with the
  unknown-tag error ``Don't know about type 0x7f''.
\<close>

theorem tag_7f_passes_range_check:
  "Parser reg 1 [0xAC, 0xED, 0x00, 0x05, 0x7F] = Inl (NoHandler None)"
  by (simp add: cursor_defs handler_defs)

text \<open>Every other tag byte outside \<open>0x70 .. 0x7E\<close> is an unknown type.\<close>

lemma content_unknown_type:
  assumes "pos s < length (buf s)"
    and "unat (buf s ! pos s) < 0x70 \<or> 0x7F < unat (buf s ! pos s)"
  shows "content reg (Suc k) allowed s = Inl (UnknownType (unat (buf s ! pos s)))"
  using assms
  by (auto simp: content_body_def bind_def readUInt8_def readUIntBE_eq slice_one be_nat_def
      throw_def names_def Let_def)

subsection \<open>String length prefixes\<close>

text \<open>
  C8. \<open>utf\<close> reads a 16-bit unsigned big-endian length \<open>n\<close> and then \<open>n\<close> bytes;
  \<open>utfLong\<close> reads a 64-bit unsigned big-endian length, fails with ``Can't handle more
  than 2^32 bytes in a string'' when its high 32 bits are not zero, and otherwise reads
  that many bytes. Both fail with ``premature end of input'' when the buffer is too short.
\<close>

theorem utf_length_prefixes:
  "utf s =
     (if pos s + 2 > length (buf s) then Inl (PrematureEnd (pos s + 2))
      else let n = be_nat (slice (buf s) (pos s) (pos s + 2)) in
        if pos s + 2 + n > length (buf s) then Inl (PrematureEnd (pos s + 2 + n))
        else Inr (to_utf8 (slice (buf s) (pos s + 2) (pos s + 2 + n)), s\<lparr>pos := pos s + 2 + n\<rparr>))
   \<and> be_nat (slice (buf s) (pos s) (pos s + 2)) < 2 ^ 16
   \<and> utfLong s =
     (if pos s + 4 > length (buf s) then Inl (PrematureEnd (pos s + 4))
      else if be_nat (slice (buf s) (pos s) (pos s + 4)) \<noteq> 0 then Inl StringTooLong
      else if pos s + 8 > length (buf s) then Inl (PrematureEnd (pos s + 8))
      else let n = be_nat (slice (buf s) (pos s) (pos s + 8)) in
        if pos s + 8 + n > length (buf s) then Inl (PrematureEnd (pos s + 8 + n))
        else Inr (to_utf8 (slice (buf s) (pos s + 8) (pos s + 8 + n)), s\<lparr>pos := pos s + 8 + n\<rparr>))"
proof (intro conjI)
  show "utf s =
     (if pos s + 2 > length (buf s) then Inl (PrematureEnd (pos s + 2))
      else let n = be_nat (slice (buf s) (pos s) (pos s + 2)) in
        if pos s + 2 + n > length (buf s) then Inl (PrematureEnd (pos s + 2 + n))
        else Inr (to_utf8 (slice (buf s) (pos s + 2) (pos s + 2 + n)), s\<lparr>pos := pos s + 2 + n\<rparr>))"
    by (simp add: utf_def readUInt16_def bind_def readUIntBE_eq chunk_eq buf_toString_def Let_def)
  have "be_nat (slice (buf s) (pos s) (pos s + 2)) < 256 ^ length (slice (buf s) (pos s) (pos s + 2))"
    by (rule be_nat_bound)
  also have "\<dots> \<le> 256 ^ 2"
    by (rule power_increasing) (simp_all add: slice_def)
  finally show "be_nat (slice (buf s) (pos s) (pos s + 2)) < 2 ^ 16" by simp
  have split8: "be_nat (slice (buf s) (pos s) (pos s + 8)) = be_nat (slice (buf s) (pos s + 4) (pos s + 8))"
    if "pos s + 8 \<le> length (buf s)" and "be_nat (slice (buf s) (pos s) (pos s + 4)) = 0"
  proof -
    have "slice (buf s) (pos s) (pos s + 8) =
        slice (buf s) (pos s) (pos s + 4) @ slice (buf s) (pos s + 4) (pos s + 8)"
      by (rule slice_split) simp_all
    then show ?thesis using that by (simp add: be_nat_append)
  qed
  show "utfLong s =
     (if pos s + 4 > length (buf s) then Inl (PrematureEnd (pos s + 4))
      else if be_nat (slice (buf s) (pos s) (pos s + 4)) \<noteq> 0 then Inl StringTooLong
      else if pos s + 8 > length (buf s) then Inl (PrematureEnd (pos s + 8))
      else let n = be_nat (slice (buf s) (pos s) (pos s + 8)) in
        if pos s + 8 + n > length (buf s) then Inl (PrematureEnd (pos s + 8 + n))
        else Inr (to_utf8 (slice (buf s) (pos s + 8) (pos s + 8 + n)), s\<lparr>pos := pos s + 8 + n\<rparr>))"
    using split8
    by (simp add: utfLong_def readUInt32_def bind_def readUIntBE_eq chunk_eq buf_toString_def
        Let_def throw_def add.assoc)
qed

subsection \<open>Registration\<close>

text \<open>
  C9 (as stated, fails on the code). A \<open>serialVersionUID\<close> of 16 characters that are not
  hex digits is not ``exactly 16 hex digits'', and both registrations accept it.
\<close>

theorem registration_accepts_non_hex:
  "\<not> sixteen_hex_digits ''zzzzzzzzzzzzzzzz''
   \<and> (\<exists>r. registerClassDataParser ''C'' ''zzzzzzzzzzzzzzzz'' (\<lambda>cls. return VNull) empty_registry = Inr r)
   \<and> (\<exists>r. registerPostProcessor ''C'' ''zzzzzzzzzzzzzzzz'' (\<lambda>cls res data. return res) empty_registry = Inr r)"
  by (simp add: sixteen_hex_digits_def is_hex_digit_def registerClassDataParser_def
      registerPostProcessor_def)

text \<open>
  C9 (amended). Each registration fails, at registration time, exactly when the length of
  the \<open>serialVersionUID\<close> string is not 16, whatever its characters; otherwise it
  succeeds and stores the entry under the key \<open>className@serialVersionUID\<close>.
\<close>

theorem registration_checks_length_only:
  "registerClassDataParser cn uid p reg =
     (if length uid = 16
      then Inr (reg\<lparr>classDataParsers := (classDataParsers reg)(cn @ ''@'' @ uid \<mapsto> p)\<rparr>)
      else Inl AssertionError)
   \<and> registerPostProcessor cn uid pp reg =
     (if length uid = 16
      then Inr (reg\<lparr>classPostProcessors := (classPostProcessors reg)(cn @ ''@'' @ uid \<mapsto> pp)\<rparr>)
      else Inl AssertionError)"
  by (simp add: registerClassDataParser_def registerPostProcessor_def)

subsection \<open>References\<close>

lemma registry_ok_empty: "registry_ok empty_registry"
  by (simp add: registry_ok_def empty_registry_def)

lemma content_Reference:
  assumes "pos s + 5 \<le> length (buf s)"
    and "buf s ! pos s = 0x71"
    and "allowed = None \<or> (\<exists>al. allowed = Some al \<and> ''Reference'' \<in> set al)"
  shows "content reg (Suc k) allowed s =
     Inr (case handles s (to_signed 32 (be_nat (slice (buf s) (pos s + 1) (pos s + 5)))) of
            None \<Rightarrow> VUndefined | Some v \<Rightarrow> v,
          s\<lparr>pos := pos s + 5\<rparr>)"
proof -
  have tag: "readUInt8 s = Inr (0x71, s\<lparr>pos := Suc (pos s)\<rparr>)"
    using assms(1,2) by (simp add: readUInt8_def readUIntBE_eq slice_one be_nat_def)
  have "readInt32 (s\<lparr>pos := Suc (pos s)\<rparr>) =
      Inr (to_signed 32 (be_nat (slice (buf s) (Suc (pos s)) (pos s + 5))), s\<lparr>pos := pos s + 5\<rparr>)"
    using assms(1) by (simp add: readInt32_def bind_def readUIntBE_eq return_def ac_simps)
  then have ref: "typeHandler_Reference (s\<lparr>pos := Suc (pos s)\<rparr>) =
      Inr (case handles s (to_signed 32 (be_nat (slice (buf s) (Suc (pos s)) (pos s + 5)))) of
             None \<Rightarrow> VUndefined | Some v \<Rightarrow> v,
           s\<lparr>pos := pos s + 5\<rparr>)"
    by (simp add: typeHandler_Reference_def bind_def)
  from assms(3) show ?thesis
    by (auto simp: content_body_def bind_def tag ref names_def typeHandlers_def Let_def)
qed

text \<open>
  C10. A \<open>Reference\<close> tag (\<open>0x71\<close>) whose 32-bit handle has no entry in the handle table
  does not fail: \<open>content\<close> returns \<open>undefined\<close> and the cursor moves past the five
  bytes.
\<close>

theorem reference_to_unassigned_handle:
  assumes "pos s + 5 \<le> length (buf s)"
    and "buf s ! pos s = 0x71"
    and "handles s (to_signed 32 (be_nat (slice (buf s) (pos s + 1) (pos s + 5)))) = None"
    and "allowed = None \<or> (\<exists>al. allowed = Some al \<and> ''Reference'' \<in> set al)"
  shows "content reg (Suc k) allowed s = Inr (VUndefined, s\<lparr>pos := pos s + 5\<rparr>)"
  using content_Reference [OF assms(1,2,4), of reg k] assms(3) by simp

theorem reference_to_unassigned_handle_witness:
  "handles (init [0xAC, 0xED, 0x00, 0x05, 0x71, 0x00, 0x7E, 0x00, 0x00]\<lparr>pos := 4\<rparr>) 0x7E0000 = None
   \<and> content empty_registry (Suc 0) None
        (init [0xAC, 0xED, 0x00, 0x05, 0x71, 0x00, 0x7E, 0x00, 0x00]\<lparr>pos := 4\<rparr>)
     = Inr (VUndefined, init [0xAC, 0xED, 0x00, 0x05, 0x71, 0x00, 0x7E, 0x00, 0x00]\<lparr>pos := 9\<rparr>)"
  using reference_to_unassigned_handle
    [of "init [0xAC, 0xED, 0x00, 0x05, 0x71, 0x00, 0x7E, 0x00, 0x00]\<lparr>pos := 4\<rparr>" None
        empty_registry 0]
  by (simp add: init_def slice_def be_nat_def to_signed_def)

subsection \<open>What a call of \<open>content\<close> leaves alone\<close>

lemma bind_Inr_iff:
  "bind m f s = Inr r \<longleftrightarrow> (\<exists>x s1. m s = Inr (x, s1) \<and> f x s1 = Inr r)"
  by (auto simp: bind_def split: sum.splits)

lemma keeps_refl: "keeps h0 a0 s s"
  by (simp add: keeps_def)

lemma keeps_trans: "keeps h0 a0 s s1 \<Longrightarrow> keeps h0 a0 s1 s2 \<Longrightarrow> keeps h0 a0 s s2"
  by (auto simp: keeps_def)

lemma keeps_mono: "keeps h a s s' \<Longrightarrow> h0 \<le> h \<Longrightarrow> a0 \<le> a \<Longrightarrow> keeps h0 a0 s s'"
  by (auto simp: keeps_def)

lemma preserving_pres: "preserving m \<Longrightarrow> pres h0 a0 m"
  unfolding preserving_def pres_def frame_def by (blast intro: keeps_mono)

lemma pres_preserving: "(\<And>h0 a0. pres h0 a0 m) \<Longrightarrow> preserving m"
  unfolding preserving_def pres_def frame_def by blast

lemma pres_return: "pres h0 a0 (return x)"
  by (simp add: pres_def return_def keeps_refl)

lemma pres_throw: "pres h0 a0 (throw e)"
  by (simp add: pres_def throw_def)

lemma pres_lift: "pres h0 a0 (lift r)"
  by (auto simp: pres_def lift_def keeps_refl split: sum.splits)

lemma pres_bind:
  assumes "pres h0 a0 m" and "\<And>x. pres h0 a0 (f x)"
  shows "pres h0 a0 (bind m f)"
  unfolding pres_def
proof (intro allI impI, elim conjE)
  fix s y s'
  assume h: "h0 \<le> nextHandle s" and a: "a0 \<le> length (heap s)" and run: "bind m f s = Inr (y, s')"
  from run obtain x s1 where m: "m s = Inr (x, s1)" and f: "f x s1 = Inr (y, s')"
    by (auto simp: bind_Inr_iff)
  from assms(1) h a m have k1: "keeps h0 a0 s s1" by (auto simp: pres_def)
  then have "h0 \<le> nextHandle s1" "a0 \<le> length (heap s1)" using h a by (auto simp: keeps_def)
  with assms(2) [of x] f have "keeps h0 a0 s1 s'" by (auto simp: pres_def)
  with k1 show "keeps h0 a0 s s'" by (rule keeps_trans)
qed

lemma pres_bind_lift:
  assumes "\<And>x. r = Inr x \<Longrightarrow> pres h0 a0 (f x)"
  shows "pres h0 a0 (bind (lift r) f)"
proof (cases r)
  case (Inl e)
  then show ?thesis by (simp add: pres_def bind_def lift_def)
next
  case (Inr x)
  have "bind (lift r) f = f x" by (rule ext) (simp add: bind_def lift_def Inr)
  with assms [OF Inr] show ?thesis by simp
qed

lemma pres_if: "pres h0 a0 m \<Longrightarrow> pres h0 a0 n \<Longrightarrow> pres h0 a0 (if c then m else n)"
  by simp

lemma pres_pos_only:
  "(\<And>s x s'. m s = Inr (x, s') \<Longrightarrow> \<exists>p. s' = s\<lparr>pos := p\<rparr>) \<Longrightarrow> pres h0 a0 m"
  unfolding pres_def keeps_def by (metis pstate.select_convs pstate.surjective pstate.update_convs(2) order_refl)

lemma pres_readUIntBE: "pres h0 a0 (readUIntBE w)"
  by (rule pres_pos_only) (auto simp: readUIntBE_eq split: if_splits)

lemma pres_chunk: "pres h0 a0 (chunk len enc)"
  by (rule pres_pos_only) (auto simp: chunk_eq split: if_splits)

lemma pres_readUInt: "pres h0 a0 readUInt8" "pres h0 a0 readUInt16" "pres h0 a0 readUInt32"
  unfolding readUInt8_def readUInt16_def readUInt32_def by (rule pres_readUIntBE)+

lemma pres_readInt: "pres h0 a0 readInt8" "pres h0 a0 readInt16" "pres h0 a0 readInt32"
  unfolding readInt8_def readInt16_def readInt32_def
  by (auto intro!: pres_bind pres_readUIntBE pres_return)

lemma pres_utf: "pres h0 a0 utf" "pres h0 a0 utfLong" "pres h0 a0 (readHex n)"
  unfolding utf_def utfLong_def readHex_def
  by (auto intro!: pres_bind pres_readUInt pres_chunk pres_throw)

lemma pres_alloc_bind:
  assumes "\<And>a. a0 \<le> a \<Longrightarrow> pres h0 a0 (f a)"
  shows "pres h0 a0 (bind (alloc ob) f)"
  unfolding pres_def
proof (intro allI impI, elim conjE)
  fix s y s'
  assume h: "h0 \<le> nextHandle s" and a: "a0 \<le> length (heap s)"
    and run: "bind (alloc ob) f s = Inr (y, s')"
  let ?s1 = "s\<lparr>heap := heap s @ [ob]\<rparr>"
  from run have f: "f (length (heap s)) ?s1 = Inr (y, s')"
    by (simp add: bind_def alloc_def)
  have k1: "keeps h0 a0 s ?s1" using a by (auto simp: keeps_def nth_append)
  from assms [OF a] f h a have "keeps h0 a0 ?s1 s'" by (auto simp: pres_def)
  with k1 show "keeps h0 a0 s s'" by (rule keeps_trans)
qed

lemma pres_newHandle: "pres h0 a0 (newHandle v)"
  by (auto simp: pres_def newHandle_def keeps_def)

lemma pres_newDeferredHandle_bind:
  assumes "\<And>idx. h0 \<le> idx \<Longrightarrow> pres h0 a0 (f idx)"
  shows "pres h0 a0 (bind newDeferredHandle f)"
  unfolding pres_def
proof (intro allI impI, elim conjE)
  fix s y s'
  assume h: "h0 \<le> nextHandle s" and a: "a0 \<le> length (heap s)"
    and run: "bind newDeferredHandle f s = Inr (y, s')"
  let ?s1 = "s\<lparr>nextHandle := nextHandle s + 1, handles := (handles s)(nextHandle s \<mapsto> VNull)\<rparr>"
  from run have f: "f (nextHandle s) ?s1 = Inr (y, s')"
    by (simp add: bind_def newDeferredHandle_def Let_def)
  have k1: "keeps h0 a0 s ?s1" using h by (auto simp: keeps_def)
  from assms [OF h] f h a have "keeps h0 a0 ?s1 s'" by (auto simp: pres_def)
  with k1 show "keeps h0 a0 s s'" by (rule keeps_trans)
qed

lemma pres_deferredHandle: "h0 \<le> idx \<Longrightarrow> pres h0 a0 (deferredHandle idx v)"
  by (auto simp: pres_def deferredHandle_def modify_def keeps_def)

lemma pres_update_obj: "a0 \<le> a \<Longrightarrow> pres h0 a0 (update_obj a f)"
  by (auto simp: pres_def update_obj_def modify_def keeps_def)

lemma pres_set_classDesc: "a0 \<le> a \<Longrightarrow> pres h0 a0 (set_classDesc a f)"
  unfolding set_classDesc_def by (rule pres_update_obj)

lemma pres_assign_own: "a0 \<le> a \<Longrightarrow> pres h0 a0 (assign_own a k v)"
  by (auto simp: pres_def assign_own_def keeps_def split: obj.splits if_splits sum.splits)

lemma pres_assign_extends: "a0 \<le> a \<Longrightarrow> pres h0 a0 (assign_extends a k v)"
  by (auto simp: pres_def assign_extends_def keeps_def split: obj.splits if_splits sum.splits)

lemma pres_copy_loop: "a0 \<le> a \<Longrightarrow> pres h0 a0 (copy_loop a ps)"
  by (induction ps) (auto intro!: pres_bind pres_return pres_assign_own)

lemma pres_copy_fields: "a0 \<le> a \<Longrightarrow> pres h0 a0 (copy_fields a v)"
  unfolding copy_fields_def
  by (cases v) (auto intro!: pres_copy_loop pres_return pres_throw)

lemma pres_as_classDesc: "pres h0 a0 (as_classDesc cls)"
  by (auto simp: pres_def as_classDesc_def keeps_refl split: val.splits obj.splits if_splits)

lemma pres_js_String: "pres h0 a0 (js_String v)"
  by (auto simp: pres_def js_String_def keeps_refl split: val.splits obj.splits if_splits)

lemma pres_set_at: "pres h0 a0 (set_at res data)"
  unfolding set_at_def by (cases res) (auto intro!: pres_return pres_throw)


lemma pres_pure: "pres h0 a0 (\<lambda>s. Inr (f s, s))"
  by (simp add: pres_def keeps_refl)

lemma pres_pos_update: "pres h0 a0 (\<lambda>s. Inr (f s, s\<lparr>pos := g s\<rparr>))"
  by (rule pres_pos_only) auto

lemma pres_case_option:
  assumes "ov = None \<Longrightarrow> pres h0 a0 m" and "\<And>x. ov = Some x \<Longrightarrow> pres h0 a0 (f x)"
  shows "pres h0 a0 (case ov of None \<Rightarrow> m | Some x \<Rightarrow> f x)"
  using assms by (cases ov) simp_all

lemmas pres_basic = pres_return pres_throw pres_lift pres_readUInt pres_readInt pres_readUIntBE
  pres_utf pres_chunk pres_newHandle pres_as_classDesc pres_js_String pres_set_at pres_pure
  pres_pos_update

lemma pres_annotations_loop:
  assumes "\<And>allowed. preserving (c allowed)"
  shows "pres h0 a0 (annotations_loop c k allowed acc)"
proof (induction k arbitrary: acc)
  case 0
  show ?case by (simp add: pres_throw)
next
  case (Suc k)
  have pc: "pres h0 a0 (c al)" for al by (rule preserving_pres) (rule assms)
  show ?case
    unfolding annotations_loop.simps by (intro pres_bind pres_if pres_return pc Suc.IH)
qed

lemma pres_annotations:
  "(\<And>allowed. preserving (c allowed)) \<Longrightarrow> pres h0 a0 (annotations c k allowed)"
  unfolding annotations_def by (rule pres_annotations_loop)

lemma pres_classDesc:
  "(\<And>allowed. preserving (c allowed)) \<Longrightarrow> pres h0 a0 (classDesc c)"
  unfolding classDesc_def by (rule preserving_pres)

lemma pres_fieldDesc:
  assumes "\<And>allowed. preserving (c allowed)"
  shows "pres h0 a0 (fieldDesc c)"
proof -
  have pc: "pres h0 a0 (c al)" for al by (rule preserving_pres) (rule assms)
  show ?thesis
    unfolding fieldDesc_def Let_def by (intro pres_bind pres_if pres_basic pc)
qed

lemma pres_primHandler:
  assumes "\<And>allowed. preserving (c allowed)" and "primHandler ty = Inr handler"
  shows "pres h0 a0 (handler c)"
proof -
  have pc: "pres h0 a0 (c al)" for al by (rule preserving_pres) (rule assms)
  have "\<forall>e \<in> set primHandlers. pres h0 a0 (snd e c)"
    unfolding primHandlers_def by (simp, intro conjI pres_bind pres_basic pc)
  moreover from assms(2) have "(ty, handler) \<in> set primHandlers"
    by (auto simp: primHandler_def split: option.splits dest: map_of_SomeD)
  ultimately show ?thesis by fastforce
qed

lemma pres_values_loop:
  assumes "\<And>allowed. preserving (c allowed)"
  shows "pres h0 a0 (values_loop c fds vals)"
proof (induction fds arbitrary: vals)
  case Nil
  show ?case by (simp add: pres_return)
next
  case (Cons field rest)
  show ?case
    unfolding values_loop.simps
    by (intro pres_bind_lift pres_bind Cons.IH) (rule pres_primHandler [OF assms])
qed

lemma pres_values':
  assumes "\<And>allowed. preserving (c allowed)"
  shows "pres h0 a0 (values' c cls)"
  unfolding values'_def
  by (intro pres_bind pres_case_option pres_basic pres_values_loop assms)

lemma pres_classdata:
  assumes "\<And>allowed. preserving (c allowed)" and "registry_ok reg"
  shows "pres h0 a0 (classdata reg c k cls)"
proof -
  have cdp: "pres h0 a0 ((case classDataParsers reg key of Some p \<Rightarrow> p | None \<Rightarrow> values' c) cls)"
    for key
  proof (cases "classDataParsers reg key")
    case None
    then show ?thesis by (simp add: pres_values' assms(1))
  next
    case (Some p)
    with assms(2) have "preserving (p cls)" unfolding registry_ok_def by blast
    with Some show ?thesis by (simp add: preserving_pres)
  qed
  have ppp: "pres h0 a0 (case classPostProcessors reg key of
      Some pp \<Rightarrow> pp cls res data | None \<Rightarrow> return res)" for key res data
  proof (cases "classPostProcessors reg key")
    case None
    then show ?thesis by (simp add: pres_return)
  next
    case (Some pp)
    with assms(2) have "preserving (pp cls res data)" unfolding registry_ok_def by blast
    with Some show ?thesis by (simp add: preserving_pres)
  qed
  show ?thesis
    unfolding classdata_def Let_def
    by (intro pres_bind cdp ppp pres_if pres_case_option pres_basic pres_values'
        pres_annotations assms(1))
qed

lemma pres_recursiveClassData:
  assumes "\<And>allowed. preserving (c allowed)" and "registry_ok reg" and "a0 \<le> ob"
  shows "pres h0 a0 (recursiveClassData reg c n k cls ob)"
proof (induction k arbitrary: cls)
  case 0
  show ?case by (simp add: pres_throw)
next
  case (Suc k)
  show ?case
    unfolding recursiveClassData.simps
    by (intro pres_bind pres_case_option pres_if pres_basic pres_classdata assms
        pres_assign_extends pres_copy_fields Suc.IH)
qed

lemma pres_fields_loop:
  assumes "\<And>allowed. preserving (c allowed)" and "a0 \<le> a"
  shows "pres h0 a0 (fields_loop c a count)"
proof (induction count)
  case 0
  show ?case by (simp add: pres_return)
next
  case (Suc count)
  show ?case
    unfolding fields_loop.simps
    by (intro pres_bind pres_fieldDesc pres_update_obj assms Suc.IH)
qed

lemma pres_elements_loop:
  assumes "pres h0 a0 handler" and "a0 \<le> a"
  shows "pres h0 a0 (elements_loop handler a i remaining)"
proof (induction remaining arbitrary: i)
  case 0
  show ?case by (simp add: pres_return)
next
  case (Suc remaining)
  show ?case
    unfolding elements_loop.simps
    by (intro pres_bind pres_update_obj assms Suc.IH)
qed

lemma pres_typeHandler_ClassDesc:
  assumes "\<And>allowed. preserving (c allowed)"
  shows "pres h0 a0 (typeHandler_ClassDesc c k)"
  unfolding typeHandler_ClassDesc_def
  by (intro pres_bind pres_alloc_bind pres_basic pres_set_classDesc pres_fields_loop
      pres_annotations pres_classDesc assms)

lemma pres_typeHandler_Object:
  assumes "\<And>allowed. preserving (c allowed)" and "registry_ok reg"
  shows "pres h0 a0 (typeHandler_Object reg c k)"
  unfolding typeHandler_Object_def
  by (intro pres_bind pres_alloc_bind pres_basic pres_recursiveClassData pres_classDesc assms)

lemma pres_typeHandler_Array:
  assumes "\<And>allowed. preserving (c allowed)"
  shows "pres h0 a0 (typeHandler_Array c)"
  unfolding typeHandler_Array_def
  by (intro pres_bind_lift pres_bind pres_alloc_bind pres_basic pres_if pres_update_obj
      pres_elements_loop pres_classDesc pres_primHandler [OF assms] assms)

lemma pres_typeHandler_Class:
  assumes "\<And>allowed. preserving (c allowed)"
  shows "pres h0 a0 (typeHandler_Class c)"
  unfolding typeHandler_Class_def
  by (intro pres_bind pres_basic pres_classDesc assms)

lemma pres_typeHandler_Enum:
  assumes "\<And>allowed. preserving (c allowed)"
  shows "pres h0 a0 (typeHandler_Enum c)"
proof -
  have pc: "pres h0 a0 (c al)" for al by (rule preserving_pres) (rule assms)
  show ?thesis
    unfolding typeHandler_Enum_def
    by (intro pres_bind pres_newDeferredHandle_bind pres_alloc_bind pres_basic pres_classDesc
        pres_deferredHandle pc assms)
qed

lemma pres_typeHandler_simple:
  "pres h0 a0 typeHandler_Null" "pres h0 a0 typeHandler_Reference"
  "pres h0 a0 typeHandler_String" "pres h0 a0 typeHandler_LongString"
  "pres h0 a0 typeHandler_BlockData" "pres h0 a0 typeHandler_BlockDataLong"
  "pres h0 a0 typeHandler_EndBlockData"
  unfolding typeHandler_Null_def typeHandler_EndBlockData_def typeHandler_String_def
    typeHandler_LongString_def typeHandler_Reference_def typeHandler_BlockData_def
    typeHandler_BlockDataLong_def
  by (intro pres_bind pres_basic)+

lemma preserving_content_body:
  assumes "\<And>allowed. preserving (c allowed)" and "registry_ok reg"
  shows "preserving (content_body reg c k allowed)"
proof (rule pres_preserving)
  fix h0 a0
  have "\<forall>e \<in> set (typeHandlers reg c k). pres h0 a0 (snd e)"
    unfolding typeHandlers_def
    by (simp, intro conjI pres_typeHandler_simple pres_typeHandler_ClassDesc
        pres_typeHandler_Object pres_typeHandler_Array pres_typeHandler_Class
        pres_typeHandler_Enum assms)
  then have handler: "pres h0 a0 handler"
    if "(case name of None \<Rightarrow> None | Some nm \<Rightarrow> map_of (typeHandlers reg c k) nm) = Some handler"
    for name handler
    using that by (cases name) (auto dest!: map_of_SomeD)
  show "pres h0 a0 (content_body reg c k allowed)"
    unfolding content_body_def Let_def
    by (intro pres_bind pres_if pres_case_option pres_basic) (rule handler)
qed

lemma preserving_content:
  assumes "registry_ok reg"
  shows "preserving (content reg k allowed)"
proof (induction k arbitrary: allowed)
  case 0
  show ?case by (simp add: preserving_def throw_def)
next
  case (Suc k)
  show ?case
    unfolding content.simps by (rule preserving_content_body [OF Suc.IH assms])
qed

lemma frameD:
  "frame s s' \<Longrightarrow> buf s' = buf s \<and> nextHandle s \<le> nextHandle s' \<and>
     length (heap s) \<le> length (heap s') \<and>
     (\<forall>h<nextHandle s. handles s' h = handles s h) \<and>
     (\<forall>a<length (heap s). heap s' ! a = heap s ! a)"
  by (simp add: frame_def keeps_def)

lemma preserving_cursor:
  "preserving utf" "preserving utfLong" "preserving (readHex n)" "preserving readInt32"
  by (rule pres_preserving, rule pres_basic)+

lemma yields_return: "yields v (return v)"
  by (simp add: yields_def return_def)

lemma yields_bind: "(\<And>x. yields v (f x)) \<Longrightarrow> yields v (bind m f)"
  by (auto simp: yields_def bind_Inr_iff)

lemma assigns_bind:
  assumes "preserving m" and "\<And>x. assigns_handle (f x)"
  shows "assigns_handle (bind m f)"
  unfolding assigns_handle_def
proof (intro allI impI)
  fix s v s'
  assume "bind m f s = Inr (v, s')"
  then obtain x s1 where m: "m s = Inr (x, s1)" and f: "f x s1 = Inr (v, s')"
    by (auto simp: bind_Inr_iff)
  from assms(1) m have "nextHandle s \<le> nextHandle s1"
    by (auto simp: preserving_def dest: frameD)
  moreover from assms(2) [of x, unfolded assigns_handle_def] f
  obtain h where "nextHandle s1 \<le> h" "h < nextHandle s'" "handles s' h = Some v"
    by blast
  ultimately show "\<exists>h. nextHandle s \<le> h \<and> h < nextHandle s' \<and> handles s' h = Some v"
    by (intro exI [of _ h]) simp
qed

lemma assigns_alloc_bind:
  assumes "\<And>a. assigns_handle (f a)"
  shows "assigns_handle (bind (alloc ob) f)"
  using assms unfolding assigns_handle_def by (fastforce simp: bind_Inr_iff alloc_def)

lemma assigns_newHandle_bind:
  assumes "\<And>h0. pres h0 0 (f v)" and "yields v (f v)"
  shows "assigns_handle (bind (newHandle v) f)"
  unfolding assigns_handle_def
proof (intro allI impI)
  fix s :: pstate and x s'
  let ?s1 = "s\<lparr>handles := (handles s)(nextHandle s \<mapsto> v), nextHandle := nextHandle s + 1\<rparr>"
  assume "bind (newHandle v) f s = Inr (x, s')"
  then have f: "f v ?s1 = Inr (x, s')" by (simp add: bind_def newHandle_def)
  with assms(2) have x: "x = v" by (auto simp: yields_def)
  from assms(1) [of "nextHandle s + 1"] f have "keeps (nextHandle s + 1) 0 ?s1 s'"
    by (auto simp: pres_def)
  then have "nextHandle s < nextHandle s'" "handles s' (nextHandle s) = Some v"
    by (auto simp: keeps_def)
  with x show "\<exists>h. nextHandle s \<le> h \<and> h < nextHandle s' \<and> handles s' h = Some x"
    by (intro exI [of _ "nextHandle s"]) simp
qed

lemma assigns_newHandle: "assigns_handle (newHandle v)"
  by (auto simp: assigns_handle_def newHandle_def)

lemma assigns_typeHandler_String:
  "assigns_handle typeHandler_String" "assigns_handle typeHandler_LongString"
  unfolding typeHandler_String_def typeHandler_LongString_def
  by (intro assigns_bind preserving_cursor assigns_newHandle)+

lemma assigns_typeHandler_ClassDesc:
  assumes "\<And>allowed. preserving (c allowed)"
  shows "assigns_handle (typeHandler_ClassDesc c k)"
  unfolding typeHandler_ClassDesc_def
  apply (rule assigns_bind [OF preserving_cursor(1)])
  apply (rule assigns_bind [OF preserving_cursor(3)])
  apply (rule assigns_alloc_bind)
  apply (rule assigns_newHandle_bind)
   apply (intro pres_bind pres_basic pres_set_classDesc pres_fields_loop pres_annotations
      pres_classDesc assms le0)
  apply (intro yields_bind yields_return)
  done

lemma assigns_typeHandler_Object:
  assumes "\<And>allowed. preserving (c allowed)" and "registry_ok reg"
  shows "assigns_handle (typeHandler_Object reg c k)"
  unfolding typeHandler_Object_def classDesc_def
  apply (rule assigns_bind [OF assms(1)])
  apply (rule assigns_alloc_bind)
  apply (rule assigns_newHandle_bind)
   apply (intro pres_bind pres_basic pres_recursiveClassData assms le0)
  apply (intro yields_bind yields_return)
  done

lemma yields_if: "yields v m \<Longrightarrow> yields v n \<Longrightarrow> yields v (if b then m else n)"
  by simp

lemma yields_throw: "yields v (throw e)"
  by (simp add: yields_def throw_def)

lemma assigns_typeHandler_Array:
  assumes "\<And>allowed. preserving (c allowed)"
  shows "assigns_handle (typeHandler_Array c)"
  unfolding typeHandler_Array_def classDesc_def
  apply (rule assigns_bind [OF assms(1)])
  apply (rule assigns_alloc_bind)
  apply (rule assigns_newHandle_bind)
   apply (intro pres_bind_lift pres_bind pres_basic pres_if pres_update_obj
      pres_elements_loop pres_primHandler [OF assms] le0)
   apply assumption
  apply (intro yields_bind yields_if yields_throw yields_return)
  done

lemma js_String_state: "js_String v s = Inr (str, s') \<Longrightarrow> s' = s"
  by (auto simp: js_String_def split: val.splits obj.splits if_splits)

lemma typeHandler_Enum_run:
  assumes "typeHandler_Enum c s = Inr (v, s')"
  obtains clazz s1 cst s3 str where
    "classDesc c s = Inr (clazz, s1)"
    "c None (s1\<lparr>nextHandle := nextHandle s1 + 1, handles := (handles s1)(nextHandle s1 \<mapsto> VNull)\<rparr>)
       = Inr (cst, s3)"
    "js_String cst s3 = Inr (str, s3)"
    "v = VRef (length (heap s3))"
    "s' = s3\<lparr>heap := heap s3 @ [OEnum str clazz], handles := (handles s3)(nextHandle s1 \<mapsto> v)\<rparr>"
proof -
  from assms obtain clazz s1 cst s3 str s4 where
    1: "classDesc c s = Inr (clazz, s1)" and
    2: "c None (s1\<lparr>nextHandle := nextHandle s1 + 1,
          handles := (handles s1)(nextHandle s1 \<mapsto> VNull)\<rparr>) = Inr (cst, s3)" and
    3: "js_String cst s3 = Inr (str, s4)" and
    4: "v = VRef (length (heap s4))" and
    5: "s' = s4\<lparr>heap := heap s4 @ [OEnum str clazz], handles := (handles s4)(nextHandle s1 \<mapsto> v)\<rparr>"
    unfolding typeHandler_Enum_def
    by (auto simp: bind_Inr_iff newDeferredHandle_def Let_def alloc_def deferredHandle_def
        modify_def return_def)
  from 3 have "s4 = s3" by (rule js_String_state)
  with 1 2 3 4 5 show ?thesis by (intro that [of clazz s1 cst s3 str]) simp_all
qed

lemma assigns_typeHandler_Enum:
  assumes "\<And>allowed. preserving (c allowed)"
  shows "assigns_handle (typeHandler_Enum c)"
  unfolding assigns_handle_def
proof (intro allI impI)
  fix s v s'
  assume "typeHandler_Enum c s = Inr (v, s')"
  then obtain clazz s1 cst s3 str where
    1: "classDesc c s = Inr (clazz, s1)" and
    2: "c None (s1\<lparr>nextHandle := nextHandle s1 + 1,
          handles := (handles s1)(nextHandle s1 \<mapsto> VNull)\<rparr>) = Inr (cst, s3)" and
    5: "s' = s3\<lparr>heap := heap s3 @ [OEnum str clazz], handles := (handles s3)(nextHandle s1 \<mapsto> v)\<rparr>"
    by (rule typeHandler_Enum_run)
  from 1 assms have "frame s s1"
    unfolding classDesc_def preserving_def by blast
  then have "nextHandle s \<le> nextHandle s1" by (simp add: frameD)
  moreover from 2 assms have "frame (s1\<lparr>nextHandle := nextHandle s1 + 1,
        handles := (handles s1)(nextHandle s1 \<mapsto> VNull)\<rparr>) s3"
    unfolding preserving_def by blast
  then have "nextHandle s1 + 1 \<le> nextHandle s3" by (auto dest: frameD)
  ultimately show "\<exists>h. nextHandle s \<le> h \<and> h < nextHandle s' \<and> handles s' h = Some v"
    using 5 by (intro exI [of _ "nextHandle s1"]) simp
qed

subsection \<open>The handle table\<close>

text \<open>
  C4. The handle counter starts at \<open>0x7E0000\<close>, and \<open>newHandle\<close> stores its argument in
  the slot of the counter and increments the counter by one. The handlers of class
  descriptors, objects, arrays, strings, long strings and enum constants leave the value
  they return in a slot that they have allocated. A call of \<open>content\<close> changes no slot
  below the counter it started with (an enum's slot is filled by the handler that
  reserved it). So a later \<open>Reference\<close> tag that carries a handle \<open>h\<close> with value
  \<open>w\<close> returns \<open>w\<close> itself, for an object the same heap address. A registered
  class-data parser or post-processor is taken to leave the table's existing slots alone.
\<close>

theorem handles_in_creation_order:
  assumes "registry_ok reg"
  shows "nextHandle (init b) = 0x7E0000 \<and> handles (init b) = Map.empty
    \<and> newHandle v s =
        Inr (v, s\<lparr>handles := (handles s)(nextHandle s \<mapsto> v), nextHandle := nextHandle s + 1\<rparr>)
    \<and> assigns_handle (typeHandler_ClassDesc (content reg k) n)
    \<and> assigns_handle (typeHandler_Object reg (content reg k) n)
    \<and> assigns_handle (typeHandler_Array (content reg k))
    \<and> assigns_handle typeHandler_String
    \<and> assigns_handle typeHandler_LongString
    \<and> assigns_handle (typeHandler_Enum (content reg k))
    \<and> (content reg k allowed s = Inr (x, s') \<longrightarrow>
          nextHandle s \<le> nextHandle s' \<and> (\<forall>h<nextHandle s. handles s' h = handles s h))
    \<and> (content reg k allowed s = Inr (x, s') \<and> h < nextHandle s \<and> handles s h = Some w \<and>
        pos s' + 5 \<le> length (buf s') \<and> buf s' ! pos s' = 0x71 \<and>
        to_signed 32 (be_nat (slice (buf s') (pos s' + 1) (pos s' + 5))) = h \<longrightarrow>
          content reg (Suc j) None s' = Inr (w, s'\<lparr>pos := pos s' + 5\<rparr>))"
proof -
  have c: "preserving (content reg k al)" for al
    by (rule preserving_content [OF assms])
  have fr: "nextHandle s \<le> nextHandle s' \<and> (\<forall>h<nextHandle s. handles s' h = handles s h)"
    if "content reg k allowed s = Inr (x, s')"
    using c [of allowed] that unfolding preserving_def by (blast dest: frameD)
  have ref: "content reg (Suc j) None s' = Inr (w, s'\<lparr>pos := pos s' + 5\<rparr>)"
    if "content reg k allowed s = Inr (x, s')" "h < nextHandle s" "handles s h = Some w"
       "pos s' + 5 \<le> length (buf s')" "buf s' ! pos s' = 0x71"
       "to_signed 32 (be_nat (slice (buf s') (pos s' + 1) (pos s' + 5))) = h"
  proof -
    from fr [OF that(1)] that(2,3) have "handles s' h = Some w" by simp
    with content_Reference [OF that(4,5), of None reg j] that(6) show ?thesis by simp
  qed
  show ?thesis
    using fr ref
    by (simp add: init_def newHandle_def assigns_typeHandler_ClassDesc [OF c]
        assigns_typeHandler_Object [OF c assms] assigns_typeHandler_Array [OF c]
        assigns_typeHandler_String assigns_typeHandler_Enum [OF c])
qed

theorem handles_in_creation_order_witness:
  "content empty_registry (Suc 0) None
     \<lparr>buf = [0x74, 0x00, 0x01, 0x41, 0x70, 0x71, 0x00, 0x7E, 0x00, 0x00], pos = 5,
      nextHandle = 0x7E0001, handles = [0x7E0000 \<mapsto> VStr ''A''], contents = [], heap = []\<rparr>
   = Inr (VStr ''A'',
     \<lparr>buf = [0x74, 0x00, 0x01, 0x41, 0x70, 0x71, 0x00, 0x7E, 0x00, 0x00], pos = 10,
      nextHandle = 0x7E0001, handles = [0x7E0000 \<mapsto> VStr ''A''], contents = [], heap = []\<rparr>)"
  using handles_in_creation_order [OF registry_ok_empty,
      where k = "Suc 0" and allowed = None and x = VNull and h = "0x7E0000" and w = "VStr ''A''"
      and j = 0
      and s = "\<lparr>buf = [0x74, 0x00, 0x01, 0x41, 0x70, 0x71, 0x00, 0x7E, 0x00, 0x00], pos = 4,
        nextHandle = 0x7E0001, handles = [0x7E0000 \<mapsto> VStr ''A''], contents = [], heap = []\<rparr>"
      and s' = "\<lparr>buf = [0x74, 0x00, 0x01, 0x41, 0x70, 0x71, 0x00, 0x7E, 0x00, 0x00], pos = 5,
        nextHandle = 0x7E0001, handles = [0x7E0000 \<mapsto> VStr ''A''], contents = [], heap = []\<rparr>"]
  by (simp add: cursor_defs handler_defs)

subsection \<open>Enum constants\<close>

text \<open>
  C3. The \<open>Enum\<close> handler reads the class descriptor, then reserves the next slot
  (holding \<open>null\<close>) and advances the counter, and only then reads the constant's name:
  handles that the name allocates come after the enum's, and a back reference to the
  enum's handle met while the name is read finds \<open>null\<close> in the slot, which the name's
  reading leaves in place. After the wrapper is built the slot holds the wrapper, and
  every later call of \<open>content\<close> keeps it and the wrapper unchanged.
\<close>

theorem enum_deferred_handle:
  assumes "registry_ok reg" and "typeHandler_Enum (content reg k) s = Inr (v, s')"
  shows "\<exists>clazz s1 cst s3 str.
      classDesc (content reg k) s = Inr (clazz, s1)
    \<and> content reg k None
        (s1\<lparr>nextHandle := nextHandle s1 + 1, handles := (handles s1)(nextHandle s1 \<mapsto> VNull)\<rparr>)
        = Inr (cst, s3)
    \<and> handles s3 (nextHandle s1) = Some VNull
    \<and> nextHandle s1 < nextHandle s3
    \<and> js_String cst s3 = Inr (str, s3)
    \<and> v = VRef (length (heap s3))
    \<and> s' = s3\<lparr>heap := heap s3 @ [OEnum str clazz], handles := (handles s3)(nextHandle s1 \<mapsto> v)\<rparr>
    \<and> (\<forall>j allowed x s''. content reg j allowed s' = Inr (x, s'') \<longrightarrow>
          handles s'' (nextHandle s1) = Some v \<and> heap s'' ! length (heap s3) = OEnum str clazz)"
proof -
  from assms(2) obtain clazz s1 cst s3 str where
    1: "classDesc (content reg k) s = Inr (clazz, s1)" and
    2: "content reg k None (s1\<lparr>nextHandle := nextHandle s1 + 1,
          handles := (handles s1)(nextHandle s1 \<mapsto> VNull)\<rparr>) = Inr (cst, s3)" and
    3: "js_String cst s3 = Inr (str, s3)" and
    4: "v = VRef (length (heap s3))" and
    5: "s' = s3\<lparr>heap := heap s3 @ [OEnum str clazz], handles := (handles s3)(nextHandle s1 \<mapsto> v)\<rparr>"
    by (rule typeHandler_Enum_run)
  let ?s2 = "s1\<lparr>nextHandle := nextHandle s1 + 1, handles := (handles s1)(nextHandle s1 \<mapsto> VNull)\<rparr>"
  from 2 preserving_content [OF assms(1), of k None] have "frame ?s2 s3"
    unfolding preserving_def by blast
  then have 6: "nextHandle s1 < nextHandle s3" and 7: "handles s3 (nextHandle s1) = Some VNull"
    by (auto dest!: frameD)
  have 8: "handles s'' (nextHandle s1) = Some v \<and> heap s'' ! length (heap s3) = OEnum str clazz"
    if "content reg j allowed s' = Inr (x, s'')" for j allowed x s''
  proof -
    from that preserving_content [OF assms(1), of j allowed] have "frame s' s''"
      unfolding preserving_def by blast
    then have "\<forall>h<nextHandle s'. handles s'' h = handles s' h"
      and "\<forall>a<length (heap s'). heap s'' ! a = heap s' ! a"
      by (simp_all add: frameD)
    with 5 6 show ?thesis by simp
  qed
  from 1 2 3 4 5 6 7 8 show ?thesis by blast
qed

theorem enum_deferred_handle_witness:
  "typeHandler_Enum (content empty_registry (Suc 0))
     (init [0xAC, 0xED, 0x00, 0x05, 0x7E, 0x70, 0x71, 0x00, 0x7E, 0x00, 0x00]\<lparr>pos := 5\<rparr>)
   = Inr (VRef 0,
       \<lparr>buf = [0xAC, 0xED, 0x00, 0x05, 0x7E, 0x70, 0x71, 0x00, 0x7E, 0x00, 0x00], pos = 11,
        nextHandle = 0x7E0001, handles = [0x7E0000 \<mapsto> VRef 0], contents = [],
        heap = [OEnum ''null'' VNull]\<rparr>)
   \<and> (\<exists>clazz s1 cst s3 str.
        content empty_registry (Suc 0) None
          (s1\<lparr>nextHandle := nextHandle s1 + 1, handles := (handles s1)(nextHandle s1 \<mapsto> VNull)\<rparr>)
          = Inr (cst, s3)
      \<and> handles s3 (nextHandle s1) = Some VNull
      \<and> nextHandle s1 < nextHandle s3
      \<and> \<lparr>buf = [0xAC, 0xED, 0x00, 0x05, 0x7E, 0x70, 0x71, 0x00, 0x7E, 0x00, 0x00], pos = 11,
          nextHandle = 0x7E0001, handles = [0x7E0000 \<mapsto> VRef 0], contents = [],
          heap = [OEnum ''null'' VNull]\<rparr>
        = s3\<lparr>heap := heap s3 @ [OEnum str clazz], handles := (handles s3)(nextHandle s1 \<mapsto> VRef 0)\<rparr>)"
proof -
  have run: "typeHandler_Enum (content empty_registry (Suc 0))
     (init [0xAC, 0xED, 0x00, 0x05, 0x7E, 0x70, 0x71, 0x00, 0x7E, 0x00, 0x00]\<lparr>pos := 5\<rparr>)
   = Inr (VRef 0,
       \<lparr>buf = [0xAC, 0xED, 0x00, 0x05, 0x7E, 0x70, 0x71, 0x00, 0x7E, 0x00, 0x00], pos = 11,
        nextHandle = 0x7E0001, handles = [0x7E0000 \<mapsto> VRef 0], contents = [],
        heap = [OEnum ''null'' VNull]\<rparr>)"
    by (simp add: typeHandler_Enum_def classDesc_def cursor_defs handler_defs
        newDeferredHandle_def deferredHandle_def alloc_def js_String_def)
  from enum_deferred_handle [OF registry_ok_empty run] run show ?thesis
    by blast
qed

subsection \<open>Class data by serialization mode\<close>



subsection \<open>Objects: class data along the inheritance chain\<close>
























lemma annotations_loop_numeral:
  "annotations_loop c (numeral n) allowed acc =
     bind (c allowed) (\<lambda>annotation.
       if annotation = VEndBlock then return (VArr acc)
       else annotations_loop c (pred_numeral n) allowed (acc @ [annotation]))"
  by (simp add: numeral_eq_Suc)

lemma fields_loop_numeral:
  "fields_loop c a (numeral count) =
     bind (fieldDesc c) (\<lambda>fd.
     bind (update_obj a (\<lambda>ob. case ob of
             OClassDesc cd \<Rightarrow> OClassDesc (cd\<lparr>cd_fields := Some (the (cd_fields cd) @ [fd])\<rparr>)
           | _ \<Rightarrow> ob)) (\<lambda>_.
       fields_loop c a (pred_numeral count)))"
  by (simp add: numeral_eq_Suc)

lemma recursiveClassData_numeral:
  "recursiveClassData reg c n (numeral k) cls ob =
     bind (as_classDesc cls) (\<lambda>cd.
     bind (case cd_super cd of
             None \<Rightarrow> return ()
           | Some super \<Rightarrow>
               if truthy super then recursiveClassData reg c n (pred_numeral k) super ob
               else return ()) (\<lambda>_.
     bind (classdata reg c n cls) (\<lambda>flds.
     bind (assign_extends ob (cd_name cd) flds) (\<lambda>_.
       copy_fields ob flds))))"
  by (simp add: numeral_eq_Suc)

lemmas object_defs = typeHandler_ClassDesc_def typeHandler_Object_def classDesc_def
  annotations_def fieldDesc_def values'_def classdata_def as_classDesc_def alloc_def
  update_obj_def set_classDesc_def assign_own_def assign_extends_def copy_fields_def put_def
  array_index_def key_before_def set_at_def primHandler_def primHandlers_def
  utf8_encode_def fromCharCode_def
  annotations_loop_numeral fields_loop_numeral recursiveClassData_numeral content_numeral
  contents_loop_numeral Let_def empty_registry_def char_of_def bit_Suc_0_iff


text \<open>
  More runs that bound what can be said of the keys of a per-class value in mode
  \<open>0x02\<close>. A repeated field name is one key. Field names that are array indices are
  enumerated first: the class \<open>A\<close> with the fields \<open>b\<close> and \<open>1\<close>, in this
  order, has a per-class value with the keys \<open>1\<close>, \<open>b\<close>. A field named
  \<open>__proto__\<close> with a primitive value leaves no key. And names are compared after
  decoding: the bytes \<open>FF\<close> and \<open>FE\<close> are both the string U+FFFD, while ASCII
  text is decoded to itself.
\<close>

lemma repeated_field_names_are_one_key:
  "\<exists>s cd fds kvs. Parser empty_registry 4
       [0xAC, 0xED, 0x00, 0x05, 0x73, 0x72, 0x00, 0x01, 0x41,
        0x00, 0x00, 0x00, 0x00, 0x00, 0x00, 0x00, 0x01, 0x02, 0x00, 0x02,
        0x49, 0x00, 0x01, 0x62, 0x49, 0x00, 0x01, 0x62, 0x78, 0x70,
        0x00, 0x00, 0x00, 0x07, 0x00, 0x00, 0x00, 0x09] = Inr s
     \<and> heap s ! 0 = OClassDesc cd \<and> cd_flags cd = Some 2 \<and> cd_fields cd = Some fds
     \<and> map fd_name fds = [''b'', ''b'']
     \<and> heap s ! 1 = OObject (VRef 0) [(''A'', VObj kvs)] kvs
     \<and> kvs = [(''b'', VNum 9)]"
  by (simp add: cursor_defs handler_defs object_defs)

lemma array_index_keys_come_first:
  "\<exists>s cd fds kvs. Parser empty_registry 4
       [0xAC, 0xED, 0x00, 0x05, 0x73, 0x72, 0x00, 0x01, 0x41,
        0x00, 0x00, 0x00, 0x00, 0x00, 0x00, 0x00, 0x01, 0x02, 0x00, 0x02,
        0x49, 0x00, 0x01, 0x62, 0x49, 0x00, 0x01, 0x31, 0x78, 0x70,
        0x00, 0x00, 0x00, 0x07, 0x00, 0x00, 0x00, 0x09] = Inr s
     \<and> heap s ! 0 = OClassDesc cd \<and> cd_flags cd = Some 2 \<and> cd_fields cd = Some fds
     \<and> map fd_name fds = [''b'', ''1'']
     \<and> heap s ! 1 = OObject (VRef 0) [(''A'', VObj kvs)] kvs
     \<and> kvs = [(''1'', VNum 9), (''b'', VNum 7)]"
  by (simp add: cursor_defs handler_defs object_defs)

lemma proto_field_leaves_no_key:
  "\<exists>s cd fds. Parser empty_registry 4
       [0xAC, 0xED, 0x00, 0x05, 0x73, 0x72, 0x00, 0x01, 0x41,
        0x00, 0x00, 0x00, 0x00, 0x00, 0x00, 0x00, 0x01, 0x02, 0x00, 0x01,
        0x49, 0x00, 0x09, 0x5F, 0x5F, 0x70, 0x72, 0x6F, 0x74, 0x6F, 0x5F, 0x5F, 0x78, 0x70,
        0x00, 0x00, 0x00, 0x07] = Inr s
     \<and> heap s ! 0 = OClassDesc cd \<and> cd_flags cd = Some 2 \<and> cd_fields cd = Some fds
     \<and> map fd_name fds = [''__proto__'']
     \<and> heap s ! 1 = OObject (VRef 0) [(''A'', VObj [])] []"
  by (simp add: cursor_defs handler_defs object_defs)

lemma ill_formed_names_coincide:
  "to_utf8 [0xFF] = to_utf8 [0xFE] \<and> to_utf8 [0xC0, 0x80] = to_utf8 [0xFF, 0xFF]"
  by (simp add: to_utf8_def utf8_encode_def)

lemma to_utf8_ascii:
  "list_all (\<lambda>b. b < 0x80) bs \<Longrightarrow> to_utf8 bs = map (\<lambda>b. char_of (unat b)) bs"
proof (induction bs)
  case Nil
  show ?case by (simp add: to_utf8_def)
next
  case (Cons b bs)
  from Cons.prems have "unat b < 0x80" by (simp add: word_less_nat_alt)
  with Cons show ?case by (simp add: to_utf8_def utf8_encode_def)
qed



end
